theory Spec2Isabelle
  imports Main "HOL-Library.Word"
begin

unbundle bit_operations_syntax

section \<open>Machine types and constants of counters.c\<close>

type_synonym u32 = "32 word"
type_synonym u64 = "64 word"
type_synonym usize = "64 word"

text \<open>A C pointer whose target is opaque to the program: \<open>None\<close> is \<open>NULL\<close>.\<close>

type_synonym pointer = "nat option"

definition KPC_CLASS_FIXED_MASK :: u32 where
  "KPC_CLASS_FIXED_MASK = push_bit 0 1"

definition KPC_CLASS_CONFIGURABLE_MASK :: u32 where
  "KPC_CLASS_CONFIGURABLE_MASK = push_bit 1 1"

definition KPC_MAX_COUNTERS :: nat where
  "KPC_MAX_COUNTERS = 32"

definition EVENT_NAME_MAX :: nat where
  "EVENT_NAME_MAX = 8"

section \<open>The platform: dynamic loader, kperf, kperfdata, sysctl\<close>

text \<open>
  Every function the program reaches through the dynamic loader or a system call is
  external. The program's state keeps a log of the external calls it has made, in order;
  the platform answers a call as a function of the log before the call and of the
  arguments. This covers any deterministic platform, also one whose answer to the same
  call changes over time.
\<close>

datatype kcall =
    Dlopen string
  | Dlerror
  | Dlclose nat
  | Dlsym pointer string
  | Kpc_force_all_ctrs_get
  | Kpc_force_all_ctrs_set int
  | Kpc_set_config u32 "u64 list"
  | Kpc_set_counting u32
  | Kpc_set_thread_counting u32
  | Kpc_get_thread_counters u32 u32
  | Kpep_db_create
  | Kpep_config_create pointer
  | Kpep_config_force_counters pointer
  | Kpep_db_event pointer string
  | Kpep_config_add_event pointer pointer
  | Kpep_config_kpc_classes pointer
  | Kpep_config_kpc_count pointer
  | Kpep_config_kpc_map pointer
  | Kpep_config_kpc pointer
  | Sysctl_KDREADTR usize

text \<open>
  A function with an out-parameter returns its return code together with what it left in
  the out-parameter: for a scalar the value after the call (it is given the value before),
  for a buffer the cells it wrote, from index 0.
\<close>

record platform =
  dlopen :: "kcall list \<Rightarrow> string \<Rightarrow> pointer"
  dlerror :: "kcall list \<Rightarrow> string"
  dlsym :: "kcall list \<Rightarrow> pointer \<Rightarrow> string \<Rightarrow> pointer"
  kpc_force_all_ctrs_get :: "kcall list \<Rightarrow> int"
  kpc_force_all_ctrs_set :: "kcall list \<Rightarrow> int \<Rightarrow> int"
  kpc_set_config :: "kcall list \<Rightarrow> u32 \<Rightarrow> u64 list \<Rightarrow> int"
  kpc_set_counting :: "kcall list \<Rightarrow> u32 \<Rightarrow> int"
  kpc_set_thread_counting :: "kcall list \<Rightarrow> u32 \<Rightarrow> int"
  kpc_get_thread_counters :: "kcall list \<Rightarrow> u32 \<Rightarrow> u32 \<Rightarrow> int \<times> u64 list"
  kpep_db_create :: "kcall list \<Rightarrow> int \<times> pointer"
  kpep_config_create :: "kcall list \<Rightarrow> pointer \<Rightarrow> int \<times> pointer"
  kpep_config_force_counters :: "kcall list \<Rightarrow> pointer \<Rightarrow> int"
  kpep_db_event :: "kcall list \<Rightarrow> pointer \<Rightarrow> string \<Rightarrow> int \<times> pointer"
  kpep_config_add_event :: "kcall list \<Rightarrow> pointer \<Rightarrow> pointer \<Rightarrow> int"
  kpep_config_kpc_classes :: "kcall list \<Rightarrow> pointer \<Rightarrow> u32 \<Rightarrow> int \<times> u32"
  kpep_config_kpc_count :: "kcall list \<Rightarrow> pointer \<Rightarrow> usize \<Rightarrow> int \<times> usize"
  kpep_config_kpc_map :: "kcall list \<Rightarrow> pointer \<Rightarrow> int \<times> usize list"
  kpep_config_kpc :: "kcall list \<Rightarrow> pointer \<Rightarrow> int \<times> u64 list"
  sysctl_KDREADTR :: "kcall list \<Rightarrow> usize \<Rightarrow> int \<times> usize"

section \<open>The global variables\<close>

record globals =
  lib_inited :: bool
  lib_has_err :: bool
  lib_err_msg :: string
  lib_handle_kperf :: pointer
  lib_handle_kperfdata :: pointer
  impl :: "string \<Rightarrow> pointer"
  classes :: u32
  reg_count :: usize
  regs :: "u64 list"
  counter_map :: "usize list"
  counters_0 :: "u64 list"
  counters_1 :: "u64 list"
  cfg :: pointer
  db :: pointer
  ev_arr :: "pointer list"
  calls :: "kcall list"

text \<open>
  The field \<open>impl\<close> holds the function pointers that the symbol tables point to, by
  symbol name; \<open>calls\<close> is the log of external calls and is not a variable of the program.
\<close>

definition ev_count :: nat where
  "ev_count = 4"

definition initial_globals :: globals where
  "initial_globals =
     \<lparr> lib_inited = False, lib_has_err = False, lib_err_msg = [],
       lib_handle_kperf = None, lib_handle_kperfdata = None, impl = (\<lambda>_. None),
       classes = 0, reg_count = 0,
       regs = replicate KPC_MAX_COUNTERS 0,
       counter_map = replicate KPC_MAX_COUNTERS 0,
       counters_0 = replicate KPC_MAX_COUNTERS 0,
       counters_1 = replicate KPC_MAX_COUNTERS 0,
       cfg = None, db = None, ev_arr = replicate ev_count None, calls = [] \<rparr>"

text \<open>A callee writes the cells \<open>new\<close> at the start of the array \<open>old\<close>.\<close>

definition array_write :: "'a list \<Rightarrow> 'a list \<Rightarrow> 'a list" where
  "array_write old new = take (length old) (new @ drop (length new) old)"

section \<open>Loading the libraries: lib_deinit and lib_init\<close>

definition lib_symbols_kperf :: "string list" where
  "lib_symbols_kperf =
     [''kpc_pmu_version'', ''kpc_cpu_string'', ''kpc_set_counting'', ''kpc_get_counting'',
      ''kpc_set_thread_counting'', ''kpc_get_thread_counting'', ''kpc_get_config_count'',
      ''kpc_get_counter_count'', ''kpc_set_config'', ''kpc_get_config'',
      ''kpc_get_cpu_counters'', ''kpc_get_thread_counters'', ''kpc_force_all_ctrs_set'',
      ''kpc_force_all_ctrs_get'', ''kperf_action_count_set'', ''kperf_action_count_get'',
      ''kperf_action_samplers_set'', ''kperf_action_samplers_get'',
      ''kperf_action_filter_set_by_task'', ''kperf_action_filter_set_by_pid'',
      ''kperf_timer_count_set'', ''kperf_timer_count_get'', ''kperf_timer_period_set'',
      ''kperf_timer_period_get'', ''kperf_timer_action_set'', ''kperf_timer_action_get'',
      ''kperf_sample_set'', ''kperf_sample_get'', ''kperf_reset'', ''kperf_timer_pet_set'',
      ''kperf_timer_pet_get'', ''kperf_ns_to_ticks'', ''kperf_ticks_to_ns'',
      ''kperf_tick_frequency'']"

definition lib_symbols_kperfdata :: "string list" where
  "lib_symbols_kperfdata =
     [''kpep_config_create'', ''kpep_config_free'', ''kpep_config_add_event'',
      ''kpep_config_remove_event'', ''kpep_config_force_counters'',
      ''kpep_config_events_count'', ''kpep_config_events'', ''kpep_config_kpc'',
      ''kpep_config_kpc_count'', ''kpep_config_kpc_classes'', ''kpep_config_kpc_map'',
      ''kpep_db_create'', ''kpep_db_free'', ''kpep_db_name'', ''kpep_db_aliases_count'',
      ''kpep_db_aliases'', ''kpep_db_counters_count'', ''kpep_db_events_count'',
      ''kpep_db_events'', ''kpep_db_event'', ''kpep_event_name'', ''kpep_event_alias'',
      ''kpep_event_description'']"

definition lib_path_kperf :: string where
  "lib_path_kperf = ''/System/Library/PrivateFrameworks/kperf.framework/kperf''"

definition lib_path_kperfdata :: string where
  "lib_path_kperfdata = ''/System/Library/PrivateFrameworks/kperfdata.framework/kperfdata''"

text \<open>\<open>snprintf\<close> into the 256-byte \<open>lib_err_msg\<close> keeps at most 255 characters.\<close>

definition set_err_msg :: "string \<Rightarrow> globals \<Rightarrow> globals" where
  "set_err_msg msg w = w\<lparr>lib_err_msg := take 255 msg\<rparr>"

text \<open>The two loops of \<open>lib_deinit\<close> that reset every function pointer of a table.\<close>

fun clear_symbols :: "string list \<Rightarrow> globals \<Rightarrow> globals" where
  "clear_symbols [] w = w"
| "clear_symbols (name # rest) w = clear_symbols rest (w\<lparr>impl := (impl w)(name := None)\<rparr>)"

definition dlclose_if :: "pointer \<Rightarrow> globals \<Rightarrow> globals" where
  "dlclose_if h w = (case h of None \<Rightarrow> w | Some a \<Rightarrow> w\<lparr>calls := calls w @ [Dlclose a]\<rparr>)"

definition lib_deinit :: "globals \<Rightarrow> globals" where
  "lib_deinit w =
     (let w1 = w\<lparr>lib_inited := False, lib_has_err := False\<rparr>;
          w2 = dlclose_if (lib_handle_kperf w1) w1;
          w3 = dlclose_if (lib_handle_kperfdata w2) w2;
          w4 = w3\<lparr>lib_handle_kperf := None, lib_handle_kperfdata := None\<rparr>;
          w5 = clear_symbols lib_symbols_kperf w4
      in clear_symbols lib_symbols_kperfdata w5)"

text \<open>The macro \<open>return_err()\<close> of \<open>lib_init\<close>.\<close>

definition return_err :: "globals \<Rightarrow> bool \<times> globals" where
  "return_err w = (False, (lib_deinit w)\<lparr>lib_inited := True, lib_has_err := True\<rparr>)"

text \<open>
  One symbol-loading loop of \<open>lib_init\<close>: it stores each \<open>dlsym\<close> result and stops at
  the first symbol that is not found, whose name it returns.
\<close>

fun load_symbols :: "platform \<Rightarrow> pointer \<Rightarrow> string list \<Rightarrow> globals \<Rightarrow> string option \<times> globals" where
  "load_symbols P h [] w = (None, w)"
| "load_symbols P h (name # rest) w =
     (let p = dlsym P (calls w) h name;
          w1 = w\<lparr>impl := (impl w)(name := p), calls := calls w @ [Dlsym h name]\<rparr>
      in if p = None then (Some name, w1) else load_symbols P h rest w1)"

definition dlerror_call :: "platform \<Rightarrow> globals \<Rightarrow> string \<times> globals" where
  "dlerror_call P w = (dlerror P (calls w), w\<lparr>calls := calls w @ [Dlerror]\<rparr>)"

definition lib_init :: "platform \<Rightarrow> globals \<Rightarrow> bool \<times> globals" where
  "lib_init P w =
     (if lib_inited w then (\<not> lib_has_err w, w)
      else
        let w1 = w\<lparr>lib_handle_kperf := dlopen P (calls w) lib_path_kperf,
                   calls := calls w @ [Dlopen lib_path_kperf]\<rparr>
        in if lib_handle_kperf w1 = None then
             (let (e, w2) = dlerror_call P w1
              in return_err (set_err_msg
                   (''Failed to load kperf.framework, message: '' @ e @ ''.'') w2))
           else
        let w3 = w1\<lparr>lib_handle_kperfdata := dlopen P (calls w1) lib_path_kperfdata,
                    calls := calls w1 @ [Dlopen lib_path_kperfdata]\<rparr>
        in if lib_handle_kperfdata w3 = None then
             (let (e, w4) = dlerror_call P w3
              in return_err (set_err_msg
                   (''Failed to load kperfdata.framework, message: '' @ e @ ''.'') w4))
           else
        case load_symbols P (lib_handle_kperf w3) lib_symbols_kperf w3 of
          (Some name, w5) \<Rightarrow>
             return_err (set_err_msg (''Failed to load kperf function: '' @ name @ ''.'') w5)
        | (None, w5) \<Rightarrow>
        (case load_symbols P (lib_handle_kperfdata w5) lib_symbols_kperfdata w5 of
          (Some name, w6) \<Rightarrow>
             return_err (set_err_msg (''Failed to load kperfdata function: '' @ name @ ''.'') w6)
        | (None, w6) \<Rightarrow> (True, w6\<lparr>lib_inited := True, lib_has_err := False\<rparr>)))"

section \<open>Event aliases and get_event\<close>

text \<open>
  The field \<open>alias\<close> of the C struct is \<open>alias_name\<close> here.
  The array \<open>names\<close> of an \<open>event_alias\<close> has \<open>EVENT_NAME_MAX\<close> cells. The record
  holds the cells its initializer gives (\<open>None\<close> is a \<open>NULL\<close> cell); C fills the
  cells after them with \<open>NULL\<close>.
\<close>

record event_alias =
  alias_name :: string
  names :: "string option list"

definition name_at :: "event_alias \<Rightarrow> nat \<Rightarrow> string option" where
  "name_at a j = (if j < length (names a) then names a ! j else None)"

definition profile_events :: "event_alias list" where
  "profile_events =
     [\<lparr>alias_name = ''cycles'',
       names = [Some ''FIXED_CYCLES'', Some ''CPU_CLK_UNHALTED.THREAD'',
                Some ''CPU_CLK_UNHALTED.CORE'']\<rparr>,
      \<lparr>alias_name = ''instructions'',
       names = [Some ''FIXED_INSTRUCTIONS'', Some ''INST_RETIRED.ANY'']\<rparr>,
      \<lparr>alias_name = ''branches'',
       names = [Some ''INST_BRANCH'', Some ''BR_INST_RETIRED.ALL_BRANCHES'',
                Some ''INST_RETIRED.ANY'']\<rparr>,
      \<lparr>alias_name = ''branch-misses'',
       names = [Some ''BRANCH_MISPRED_NONSPEC'', Some ''BRANCH_MISPREDICT'',
                Some ''BR_MISP_RETIRED.ALL_BRANCHES'', Some ''BR_INST_RETIRED.MISPRED'']\<rparr>]"

text \<open>The loop of \<open>get_event\<close>, from index \<open>j\<close> on.\<close>

function get_event_from :: "platform \<Rightarrow> pointer \<Rightarrow> event_alias \<Rightarrow> nat \<Rightarrow> globals \<Rightarrow> pointer \<times> globals" where
  "get_event_from P d a j w =
     (if j < EVENT_NAME_MAX then
        (case name_at a j of
           None \<Rightarrow> (None, w)
         | Some name \<Rightarrow>
             (let (ret, ev) = kpep_db_event P (calls w) d name;
                  w1 = w\<lparr>calls := calls w @ [Kpep_db_event d name]\<rparr>
              in if ret = 0 then (ev, w1) else get_event_from P d a (j + 1) w1))
      else (None, w))"
  by pat_completeness auto
termination
  by (relation "measure (\<lambda>(P, d, a, j, w). EVENT_NAME_MAX - j)") auto

declare get_event_from.simps [simp del]

definition get_event :: "platform \<Rightarrow> pointer \<Rightarrow> event_alias \<Rightarrow> globals \<Rightarrow> pointer \<times> globals" where
  "get_event P d a w = get_event_from P d a 0 w"

subsection \<open>The words of the specification on event resolution\<close>

text \<open>
  The candidates of an alias are its names before the null terminator. A database answers
  a lookup of a name with a return code, 0 when it has the event, and a handle.
  \<open>resolve\<close> tries the candidates in order and returns the handle of the first hit, and
  nothing when there is none; \<open>tried\<close> are the names looked up on the way: the candidates
  up to and including the first hit.
\<close>

definition candidates :: "event_alias \<Rightarrow> string list" where
  "candidates a = map the (takeWhile (\<lambda>x. x \<noteq> None) (take EVENT_NAME_MAX (names a)))"

definition resolve :: "(string \<Rightarrow> int \<times> pointer) \<Rightarrow> event_alias \<Rightarrow> pointer" where
  "resolve cat a =
     (case find (\<lambda>n. fst (cat n) = 0) (candidates a) of None \<Rightarrow> None | Some n \<Rightarrow> snd (cat n))"

definition tried :: "(string \<Rightarrow> int \<times> pointer) \<Rightarrow> event_alias \<Rightarrow> string list" where
  "tried cat a =
     takeWhile (\<lambda>n. fst (cat n) \<noteq> 0) (candidates a) @
     take 1 (dropWhile (\<lambda>n. fst (cat n) \<noteq> 0) (candidates a))"

text \<open>The candidates from the cell \<open>j\<close> on.\<close>

definition candidates_from :: "event_alias \<Rightarrow> nat \<Rightarrow> string list" where
  "candidates_from a j =
     map the (takeWhile (\<lambda>x. x \<noteq> None) (drop j (take EVENT_NAME_MAX (names a))))"

section \<open>Demo 1: performance_counters_init, _start and _stop\<close>

definition kpep_config_error_names :: "string list" where
  "kpep_config_error_names =
     [''none'', ''invalid argument'', ''out of memory'', ''I/O'', ''buffer too small'',
      ''current system unknown'', ''database path invalid'', ''database not found'',
      ''database architecture unsupported'', ''database version unsupported'',
      ''database corrupt'', ''event not found'', ''conflicting events'',
      ''all counters must be forced'', ''event unavailable'', ''check errno'']"

definition KPEP_CONFIG_ERROR_MAX :: int where
  "KPEP_CONFIG_ERROR_MAX = 16"

definition kpep_config_error_desc :: "int \<Rightarrow> string" where
  "kpep_config_error_desc code =
     (if 0 \<le> code \<and> code < KPEP_CONFIG_ERROR_MAX then kpep_config_error_names ! nat code
      else ''unknown error'')"

text \<open>
  The functions of demo 1 return a \<open>const char *\<close>: \<open>None\<close> is the null pointer of a
  successful return, \<open>Some msg\<close> the message of an early return. \<open>and_then\<close> runs the
  next part of a function body unless the part before has returned.
\<close>

definition and_then :: "string option \<times> globals \<Rightarrow> (globals \<Rightarrow> string option \<times> globals) \<Rightarrow> string option \<times> globals" where
  "and_then r f = (case r of (Some msg, w) \<Rightarrow> (Some msg, w) | (None, w) \<Rightarrow> f w)"

text \<open>
  \<open>performance_counters_init\<close> up to the event loop: load dylib, check permission,
  load pmc db, create a config.
\<close>

definition init_create_config :: "platform \<Rightarrow> globals \<Rightarrow> string option \<times> globals" where
  "init_create_config P w =
     (let (ok, w1) = lib_init P w in
      if \<not> ok then (Some (lib_err_msg w1), w1) else
      let r2 = kpc_force_all_ctrs_get P (calls w1);
          w2 = w1\<lparr>calls := calls w1 @ [Kpc_force_all_ctrs_get]\<rparr> in
      if r2 \<noteq> 0 then
        (Some (''Permission denied, xnu/kpc requires root privileges.'' @ [CHR 0x0A]), w2) else
      let (r3, d) = kpep_db_create P (calls w2);
          w3 = w2\<lparr>db := d, calls := calls w2 @ [Kpep_db_create]\<rparr> in
      if r3 \<noteq> 0 then (Some ''Error: cannot load pmc database'', w3) else
      let (r4, c) = kpep_config_create P (calls w3) (db w3);
          w4 = w3\<lparr>cfg := c, calls := calls w3 @ [Kpep_config_create (db w3)]\<rparr> in
      if r4 \<noteq> 0 then (Some (kpep_config_error_desc r4), w4) else
      let r5 = kpep_config_force_counters P (calls w4) (cfg w4);
          w5 = w4\<lparr>calls := calls w4 @ [Kpep_config_force_counters (cfg w4)]\<rparr> in
      if r5 \<noteq> 0 then (Some (kpep_config_error_desc r5), w5) else (None, w5))"

text \<open>The loop "get events", from index \<open>i\<close> on.\<close>

function init_get_events :: "platform \<Rightarrow> nat \<Rightarrow> globals \<Rightarrow> string option \<times> globals" where
  "init_get_events P i w =
     (if i < ev_count then
        (let a = profile_events ! i;
             (ev, w1) = get_event P (db w) a w;
             w2 = w1\<lparr>ev_arr := (ev_arr w1)[i := ev]\<rparr>
         in if ev_arr w2 ! i = None then (Some (alias_name a), w2)
            else init_get_events P (i + 1) w2)
      else (None, w))"
  by pat_completeness auto
termination
  by (relation "measure (\<lambda>(P, i, w). ev_count - i)") auto

declare init_get_events.simps [simp del]

text \<open>The loop "add event to config", from index \<open>i\<close> on.\<close>

function init_add_events :: "platform \<Rightarrow> nat \<Rightarrow> globals \<Rightarrow> string option \<times> globals" where
  "init_add_events P i w =
     (if i < ev_count then
        (let ev = ev_arr w ! i;
             ret = kpep_config_add_event P (calls w) (cfg w) ev;
             w1 = w\<lparr>calls := calls w @ [Kpep_config_add_event (cfg w) ev]\<rparr>
         in if ret \<noteq> 0 then (Some (kpep_config_error_desc ret), w1)
            else init_add_events P (i + 1) w1)
      else (None, w))"
  by pat_completeness auto
termination
  by (relation "measure (\<lambda>(P, i, w). ev_count - i)") auto

declare init_add_events.simps [simp del]

text \<open>The four queries that fill \<open>classes\<close>, \<open>reg_count\<close>, \<open>counter_map\<close> and \<open>regs\<close>.\<close>

definition init_query_config :: "platform \<Rightarrow> globals \<Rightarrow> string option \<times> globals" where
  "init_query_config P w =
     (let (r1, cl) = kpep_config_kpc_classes P (calls w) (cfg w) (classes w);
          w1 = w\<lparr>classes := cl, calls := calls w @ [Kpep_config_kpc_classes (cfg w)]\<rparr> in
      if r1 \<noteq> 0 then (Some (kpep_config_error_desc r1), w1) else
      let (r2, n) = kpep_config_kpc_count P (calls w1) (cfg w1) (reg_count w1);
          w2 = w1\<lparr>reg_count := n, calls := calls w1 @ [Kpep_config_kpc_count (cfg w1)]\<rparr> in
      if r2 \<noteq> 0 then (Some (kpep_config_error_desc r2), w2) else
      let (r3, m) = kpep_config_kpc_map P (calls w2) (cfg w2);
          w3 = w2\<lparr>counter_map := array_write (counter_map w2) m,
                    calls := calls w2 @ [Kpep_config_kpc_map (cfg w2)]\<rparr> in
      if r3 \<noteq> 0 then (Some (kpep_config_error_desc r3), w3) else
      let (r4, rs) = kpep_config_kpc P (calls w3) (cfg w3);
          w4 = w3\<lparr>regs := array_write (regs w3) rs,
                    calls := calls w3 @ [Kpep_config_kpc (cfg w3)]\<rparr> in
      if r4 \<noteq> 0 then (Some ''Failed get kpc registers'', w4) else (None, w4))"

text \<open>\<open>performance_counters_init\<close> up to the comment "set config to kernel".\<close>

definition init_build_config :: "platform \<Rightarrow> globals \<Rightarrow> string option \<times> globals" where
  "init_build_config P w =
     and_then (and_then (and_then (init_create_config P w) (init_get_events P 0))
       (init_add_events P 0)) (init_query_config P)"

text \<open>The part "set config to kernel".\<close>

definition init_set_config :: "platform \<Rightarrow> globals \<Rightarrow> string option \<times> globals" where
  "init_set_config P w =
     (let r1 = kpc_force_all_ctrs_set P (calls w) 1;
          w1 = w\<lparr>calls := calls w @ [Kpc_force_all_ctrs_set 1]\<rparr> in
      if r1 \<noteq> 0 then (Some ''Failed force all ctrs'', w1) else
      if classes w1 AND KPC_CLASS_CONFIGURABLE_MASK \<noteq> 0 \<and> reg_count w1 \<noteq> 0 then
        (let r2 = kpc_set_config P (calls w1) (classes w1) (regs w1);
             w2 = w1\<lparr>calls := calls w1 @ [Kpc_set_config (classes w1) (regs w1)]\<rparr> in
         if r2 \<noteq> 0 then (Some ''Failed set kpc config'', w2) else (None, w2))
      else (None, w1))"

definition performance_counters_init :: "platform \<Rightarrow> globals \<Rightarrow> string option \<times> globals" where
  "performance_counters_init P w = and_then (init_build_config P w) (init_set_config P)"

text \<open>
  \<open>is_set_config\<close> recognises a call of \<open>kpc_set_config\<close> in the log. \<open>quiet_ext w w'\<close>
  says that the log of \<open>w'\<close> is the log of \<open>w\<close> followed by calls other than
  \<open>kpc_set_config\<close>.
\<close>

fun is_set_config :: "kcall \<Rightarrow> bool" where
  "is_set_config (Kpc_set_config c rs) = True"
| "is_set_config _ = False"

definition quiet_ext :: "globals \<Rightarrow> globals \<Rightarrow> bool" where
  "quiet_ext w w' \<longleftrightarrow> (\<exists>xs. calls w' = calls w @ xs \<and> \<not> list_ex is_set_config xs)"

definition performance_counters_start :: "platform \<Rightarrow> globals \<Rightarrow> string option \<times> globals" where
  "performance_counters_start P w =
     (let r1 = kpc_set_counting P (calls w) (classes w);
          w1 = w\<lparr>calls := calls w @ [Kpc_set_counting (classes w)]\<rparr> in
      if r1 \<noteq> 0 then (Some ''Failed set counting'', w1) else
      let r2 = kpc_set_thread_counting P (calls w1) (classes w1);
          w2 = w1\<lparr>calls := calls w1 @ [Kpc_set_thread_counting (classes w1)]\<rparr> in
      if r2 \<noteq> 0 then (Some ''Failed set thread counting'', w2) else
      let (r3, buf) = kpc_get_thread_counters P (calls w2) 0 (of_nat KPC_MAX_COUNTERS);
          w3 = w2\<lparr>counters_0 := array_write (counters_0 w2) buf,
                    calls := calls w2 @ [Kpc_get_thread_counters 0 (of_nat KPC_MAX_COUNTERS)]\<rparr> in
      if r3 \<noteq> 0 then (Some ''Failed get thread counters before'', w3) else (None, w3))"

text \<open>
  What C leaves undefined is a value of the model: \<open>OutOfBounds\<close> is an access past the
  end of an array, \<open>NullDereference\<close> a write through a null pointer. \<open>AllocationFailed\<close>
  is the early return of demo 2 after \<open>malloc\<close> or \<open>realloc\<close> has failed.
\<close>

datatype failure = OutOfBounds | NullDereference | AllocationFailed

definition fbind :: "failure + 'a \<Rightarrow> ('a \<Rightarrow> failure + 'b) \<Rightarrow> failure + 'b" where
  "fbind r f = (case r of Inl e \<Rightarrow> Inl e | Inr x \<Rightarrow> f x)"

text \<open>
  The loop of \<open>performance_counters_stop\<close> over the first four events, from index \<open>i\<close>
  on; \<open>vals\<close> is the caller's array \<open>values\<close>.
\<close>

function stop_deltas :: "globals \<Rightarrow> nat \<Rightarrow> u64 list \<Rightarrow> failure + u64 list" where
  "stop_deltas w i vals =
     (if i < 4 then
        (if length (counter_map w) \<le> i then Inl OutOfBounds else
         let idx = unat (counter_map w ! i) in
         if length (counters_1 w) \<le> idx \<or> length (counters_0 w) \<le> idx \<or> length vals \<le> i
         then Inl OutOfBounds
         else stop_deltas w (i + 1) (vals[i := counters_1 w ! idx - counters_0 w ! idx]))
      else Inr vals)"
  by pat_completeness auto
termination
  by (relation "measure (\<lambda>(w, i, vals). 4 - i)") auto

declare stop_deltas.simps [simp del]

definition performance_counters_stop :: "platform \<Rightarrow> u64 list \<Rightarrow> globals \<Rightarrow> failure + (string option \<times> u64 list \<times> globals)" where
  "performance_counters_stop P vals w =
     (let (ret, buf) = kpc_get_thread_counters P (calls w) 0 (of_nat KPC_MAX_COUNTERS);
          w1 = w\<lparr>counters_1 := array_write (counters_1 w) buf,
                  calls := calls w @ [Kpc_get_thread_counters 0 (of_nat KPC_MAX_COUNTERS)]\<rparr> in
      if ret \<noteq> 0 then Inr (Some ''Failed get thread counters after'', vals, w1) else
      let w2 = w1\<lparr>calls := calls w1 @ [Kpc_set_counting 0]\<rparr>;
          w3 = w2\<lparr>calls := calls w2 @ [Kpc_set_thread_counting 0]\<rparr>;
          w4 = w3\<lparr>calls := calls w3 @ [Kpc_force_all_ctrs_set 0]\<rparr>
      in fbind (stop_deltas w4 0 vals) (\<lambda>vals'. Inr (None, vals', w4)))"

text \<open>
  The arrays of the globals have their declared sizes. \<open>stop_in_bounds\<close> says that the
  first four cells of \<open>counter_map\<close> index the counter arrays and that the caller's array
  has four cells.
\<close>

definition arrays_sized :: "globals \<Rightarrow> bool" where
  "arrays_sized w \<longleftrightarrow>
     length (regs w) = KPC_MAX_COUNTERS \<and> length (counter_map w) = KPC_MAX_COUNTERS \<and>
     length (counters_0 w) = KPC_MAX_COUNTERS \<and> length (counters_1 w) = KPC_MAX_COUNTERS \<and>
     length (ev_arr w) = ev_count"

definition stop_in_bounds :: "globals \<Rightarrow> u64 list \<Rightarrow> bool" where
  "stop_in_bounds w vals \<longleftrightarrow>
     arrays_sized w \<and> 4 \<le> length vals \<and>
     list_all (\<lambda>m. unat m < KPC_MAX_COUNTERS) (take 4 (counter_map w))"

section \<open>kdebug_trace_read\<close>

text \<open>
  \<open>buf\<close> is the pointer to the caller's memory, \<open>count\<close> the cell the pointer \<open>count\<close>
  points to (\<open>None\<close> for a null pointer). The result has the return code and the cell
  after the call. The \<open>sysctl\<close> changes \<open>len\<close> to the number of entries it has read.
\<close>

definition kdebug_trace_read :: "platform \<Rightarrow> pointer \<Rightarrow> usize \<Rightarrow> usize option \<Rightarrow> globals \<Rightarrow> failure + (int \<times> usize option \<times> globals)" where
  "kdebug_trace_read P buf len count w =
     (let count1 = (case count of None \<Rightarrow> None | Some c \<Rightarrow> Some 0) in
      if buf = None \<or> len = 0 then Inr (- 1, count1, w) else
      let (ret, len1) = sysctl_KDREADTR P (calls w) len;
          w1 = w\<lparr>calls := calls w @ [Sysctl_KDREADTR len]\<rparr> in
      if ret \<noteq> 0 then Inr (ret, count1, w1) else
      (case count1 of
         None \<Rightarrow> Inl NullDereference
       | Some c \<Rightarrow> Inr (0, Some len1, w1)))"

section \<open>Demo 2: decoding the trace buffer\<close>

record kd_buf =
  timestamp :: u64
  arg1 :: u64
  arg2 :: u64
  arg3 :: u64
  arg4 :: u64
  arg5 :: u64
  debugid :: u32
  cpuid :: u32

text \<open>
  \<open>KDBG_FUNC_MASK\<close> and \<open>DBG_FUNC_START\<close> come from the system header
  \<open>sys/kdebug.h\<close>, which is not part of the repository: they are parameters.
\<close>

record kdebug_h =
  KDBG_FUNC_MASK :: u32
  DBG_FUNC_START :: u32

record kpc_thread_data =
  tid :: u32
  timestamp_0 :: u64
  timestamp_1 :: u64
  thread_counters_0 :: "u64 list"
  thread_counters_1 :: "u64 list"

text \<open>
  The fields \<open>counters_0\<close> and \<open>counters_1\<close> of the C struct are
  \<open>thread_counters_0\<close> and \<open>thread_counters_1\<close> here. The local array \<open>counters\<close>
  is modelled by the list of the cells written so far, so that \<open>ci\<close> is its length.
  \<open>put_counter\<close> is \<open>counters[ci++] = v\<close>.
\<close>

definition put_counter :: "u64 list \<Rightarrow> u64 \<Rightarrow> failure + u64 list" where
  "put_counter cs v = (if length cs < KPC_MAX_COUNTERS then Inr (cs @ [v]) else Inl OutOfBounds)"

text \<open>\<open>if (ci < counter_count) counters[ci++] = v\<close>\<close>

definition put_if :: "nat \<Rightarrow> u64 list \<Rightarrow> u64 \<Rightarrow> failure + u64 list" where
  "put_if counter_count cs v = (if length cs < counter_count then put_counter cs v else Inr cs)"

text \<open>The inner loop over the records \<open>buf2\<close> that follow a start record.\<close>

fun read_split_values :: "kdebug_h \<Rightarrow> u32 \<Rightarrow> nat \<Rightarrow> u64 list \<Rightarrow> kd_buf list \<Rightarrow> failure + u64 list" where
  "read_split_values K t counter_count cs [] = Inr cs"
| "read_split_values K t counter_count cs (buf2 # rest) =
     (if (ucast (arg5 buf2) :: u32) \<noteq> t then Inr cs
      else if debugid buf2 AND KDBG_FUNC_MASK K = DBG_FUNC_START K then Inr cs
      else
        fbind (put_if counter_count cs (arg1 buf2)) (\<lambda>cs1.
        fbind (put_if counter_count cs1 (arg2 buf2)) (\<lambda>cs2.
        fbind (put_if counter_count cs2 (arg3 buf2)) (\<lambda>cs3.
        fbind (put_if counter_count cs3 (arg4 buf2)) (\<lambda>cs4.
        if length cs4 = counter_count then Inr cs4
        else read_split_values K t counter_count cs4 rest)))))"

text \<open>
  "read one counter log" at the start record \<open>buf\<close>, followed by \<open>rest\<close>: \<open>None\<close> when
  the loop body goes on to the next record (\<open>ci != counter_count\<close>).
\<close>

definition read_one_counter_log :: "kdebug_h \<Rightarrow> nat \<Rightarrow> kd_buf \<Rightarrow> kd_buf list \<Rightarrow> failure + u64 list option" where
  "read_one_counter_log K counter_count buf rest =
     fbind (put_counter [] (arg1 buf)) (\<lambda>cs1.
     fbind (put_counter cs1 (arg2 buf)) (\<lambda>cs2.
     fbind (put_counter cs2 (arg3 buf)) (\<lambda>cs3.
     fbind (put_counter cs3 (arg4 buf)) (\<lambda>cs4.
     fbind (if length cs4 < counter_count
            then read_split_values K (ucast (arg5 buf)) counter_count cs4 rest
            else Inr cs4) (\<lambda>cs.
     if length cs \<noteq> counter_count then Inr None else Inr (Some cs))))))"

text \<open>
  The table of threads: \<open>thread_count\<close> is the length of \<open>thread_data\<close>. \<open>malloc\<close> and
  \<open>realloc\<close> are external: \<open>alloc_ok n\<close> says whether the request for \<open>n\<close> entries succeeds.
\<close>

record thread_table =
  thread_capacity :: nat
  thread_data :: "kpc_thread_data list"

definition zeroed_thread_data :: kpc_thread_data where
  "zeroed_thread_data =
     \<lparr>tid = 0, timestamp_0 = 0, timestamp_1 = 0,
      thread_counters_0 = replicate KPC_MAX_COUNTERS 0,
      thread_counters_1 = replicate KPC_MAX_COUNTERS 0\<rparr>"

text \<open>The search loop: the index of the first entry of the thread, if there is one.\<close>

fun find_thread :: "kpc_thread_data list \<Rightarrow> u32 \<Rightarrow> nat option" where
  "find_thread [] t = None"
| "find_thread (d # ds) t = (if tid d = t then Some 0 else map_option Suc (find_thread ds t))"

text \<open>
  The last \<open>if\<close> of the loop body: the sample goes to the start slot when
  \<open>timestamp_0\<close> is zero, to the end slot otherwise. \<open>memcpy\<close> copies
  \<open>counter_count\<close> cells.
\<close>

definition store_sample :: "nat \<Rightarrow> u64 \<Rightarrow> u64 list \<Rightarrow> kpc_thread_data \<Rightarrow> kpc_thread_data" where
  "store_sample counter_count ts counters d =
     (if timestamp_0 d = 0
      then d\<lparr>timestamp_0 := ts,
             thread_counters_0 := array_write (thread_counters_0 d) (take counter_count counters)\<rparr>
      else d\<lparr>timestamp_1 := ts,
             thread_counters_1 := array_write (thread_counters_1 d) (take counter_count counters)\<rparr>)"

definition add_to_thread_data :: "(nat \<Rightarrow> bool) \<Rightarrow> nat \<Rightarrow> u32 \<Rightarrow> u64 \<Rightarrow> u64 list \<Rightarrow> thread_table \<Rightarrow> failure + thread_table" where
  "add_to_thread_data alloc_ok counter_count t ts counters T =
     (case find_thread (thread_data T) t of
        Some i \<Rightarrow>
          Inr (T\<lparr>thread_data :=
                 (thread_data T)[i := store_sample counter_count ts counters (thread_data T ! i)]\<rparr>)
      | None \<Rightarrow>
          (let T1 = (if thread_capacity T = length (thread_data T)
                     then T\<lparr>thread_capacity := thread_capacity T * 2\<rparr> else T) in
           if thread_capacity T = length (thread_data T) \<and> \<not> alloc_ok (thread_capacity T1)
           then Inl AllocationFailed
           else Inr (T1\<lparr>thread_data := thread_data T1 @
                  [store_sample counter_count ts counters (zeroed_thread_data\<lparr>tid := t\<rparr>)]\<rparr>)))"

text \<open>The outer loop over the records of the local buffer.\<close>

fun decode_loop :: "kdebug_h \<Rightarrow> (nat \<Rightarrow> bool) \<Rightarrow> nat \<Rightarrow> kd_buf list \<Rightarrow> thread_table \<Rightarrow> failure + thread_table" where
  "decode_loop K alloc_ok counter_count [] T = Inr T"
| "decode_loop K alloc_ok counter_count (buf # rest) T =
     (if debugid buf AND KDBG_FUNC_MASK K \<noteq> DBG_FUNC_START K
      then decode_loop K alloc_ok counter_count rest T
      else if (ucast (arg5 buf) :: u32) = 0
      then decode_loop K alloc_ok counter_count rest T
      else
        fbind (read_one_counter_log K counter_count buf rest) (\<lambda>r.
        case r of
          None \<Rightarrow> decode_loop K alloc_ok counter_count rest T
        | Some counters \<Rightarrow>
            fbind (add_to_thread_data alloc_ok counter_count (ucast (arg5 buf)) (timestamp buf)
                     counters T)
              (decode_loop K alloc_ok counter_count rest)))"

text \<open>The aggregation of demo 2, from the \<open>malloc\<close> of the table to the end of the loop.\<close>

definition aggregate :: "kdebug_h \<Rightarrow> (nat \<Rightarrow> bool) \<Rightarrow> u32 \<Rightarrow> kd_buf list \<Rightarrow> failure + thread_table" where
  "aggregate K alloc_ok counter_count bufs =
     (if \<not> alloc_ok 16 then Inl AllocationFailed
      else decode_loop K alloc_ok (unat counter_count) bufs
             \<lparr>thread_capacity = 16, thread_data = []\<rparr>)"

subsection \<open>The words of the specification on trace decoding\<close>

text \<open>
  A record starts a sample when its function flag is "start"; its thread id is the low
  32 bits of \<open>arg5\<close>. A continuation record of thread \<open>t\<close> has the thread id \<open>t\<close> and a
  function flag that is not "start". The words a logical sample can draw on are the
  four arguments of its start record and of each continuation record that follows
  immediately.
\<close>

definition is_start :: "kdebug_h \<Rightarrow> kd_buf \<Rightarrow> bool" where
  "is_start K b \<longleftrightarrow> debugid b AND KDBG_FUNC_MASK K = DBG_FUNC_START K"

definition thread_id :: "kd_buf \<Rightarrow> u32" where
  "thread_id b = ucast (arg5 b)"

definition args :: "kd_buf \<Rightarrow> u64 list" where
  "args b = [arg1 b, arg2 b, arg3 b, arg4 b]"

definition is_continuation :: "kdebug_h \<Rightarrow> u32 \<Rightarrow> kd_buf \<Rightarrow> bool" where
  "is_continuation K t b \<longleftrightarrow> thread_id b = t \<and> \<not> is_start K b"

definition sample_words :: "kdebug_h \<Rightarrow> kd_buf \<Rightarrow> kd_buf list \<Rightarrow> u64 list" where
  "sample_words K b rest =
     args b @ concat (map args (takeWhile (is_continuation K (thread_id b)) rest))"

text \<open>
  A complete logical sample has the thread id and the timestamp of its start record and
  \<open>counter_count\<close> counter values. \<open>complete_samples\<close> lists the complete samples of a
  record stream in order, \<open>add_samples\<close> adds them to the table one after the other, and
  \<open>samples_of t\<close> keeps those of the thread \<open>t\<close>.
\<close>

record sample =
  sample_tid :: u32
  sample_timestamp :: u64
  sample_counters :: "u64 list"

fun complete_samples :: "kdebug_h \<Rightarrow> nat \<Rightarrow> kd_buf list \<Rightarrow> sample list" where
  "complete_samples K n [] = []"
| "complete_samples K n (b # rest) =
     (if is_start K b \<and> thread_id b \<noteq> 0 \<and> 4 \<le> n \<and> n \<le> length (sample_words K b rest)
      then \<lparr>sample_tid = thread_id b, sample_timestamp = timestamp b,
             sample_counters = take n (sample_words K b rest)\<rparr> # complete_samples K n rest
      else complete_samples K n rest)"

fun add_samples :: "(nat \<Rightarrow> bool) \<Rightarrow> nat \<Rightarrow> sample list \<Rightarrow> thread_table \<Rightarrow> failure + thread_table" where
  "add_samples alloc_ok n [] T = Inr T"
| "add_samples alloc_ok n (s # ss) T =
     fbind (add_to_thread_data alloc_ok n (sample_tid s) (sample_timestamp s) (sample_counters s) T)
       (add_samples alloc_ok n ss)"

definition samples_of :: "u32 \<Rightarrow> sample list \<Rightarrow> sample list" where
  "samples_of t ss = filter (\<lambda>s. sample_tid s = t) ss"

text \<open>
  The entry of a thread in the words of the specification: the start snapshot is the first
  complete sample of the thread; the end snapshot is the latest one when the thread has
  two or more, and is empty (all zero) otherwise. A snapshot fills the first cells of its
  array of \<open>KPC_MAX_COUNTERS\<close> cells; the other cells are zero.
\<close>

definition padded :: "u64 list \<Rightarrow> u64 list" where
  "padded cs = array_write (replicate KPC_MAX_COUNTERS 0) cs"

definition expected_entry :: "u32 \<Rightarrow> sample list \<Rightarrow> kpc_thread_data" where
  "expected_entry t st =
     \<lparr>tid = t,
      timestamp_0 = sample_timestamp (hd st),
      timestamp_1 = (if 2 \<le> length st then sample_timestamp (last st) else 0),
      thread_counters_0 = padded (sample_counters (hd st)),
      thread_counters_1 = (if 2 \<le> length st then padded (sample_counters (last st))
                            else replicate KPC_MAX_COUNTERS 0)\<rparr>"

text \<open>
  The invariant of the table after the samples \<open>ss\<close>: one entry for each thread id
  among the samples, and an entry whose first sample has a nonzero timestamp is the one
  the specification describes.
\<close>

definition table_inv :: "sample list \<Rightarrow> kpc_thread_data list \<Rightarrow> bool" where
  "table_inv ss ds \<longleftrightarrow>
     distinct (map tid ds) \<and> tid ` set ds = sample_tid ` set ss \<and>
     (\<forall>d \<in> set ds. sample_timestamp (hd (samples_of (tid d) ss)) \<noteq> 0 \<longrightarrow>
        d = expected_entry (tid d) (samples_of (tid d) ss))"

section \<open>Concrete platforms for the examples\<close>

text \<open>
  On \<open>quiet_platform\<close> every call succeeds: the loader finds every library and symbol,
  the database knows every event name, and the buffers stay as they are.
  \<open>platform_failing_once\<close> differs in that \<open>dlopen\<close> fails as long as no external
  call has been made.
\<close>

definition quiet_platform :: platform where
  "quiet_platform =
     \<lparr> dlopen = (\<lambda>h p. Some 1), dlerror = (\<lambda>h. ''image not found''),
       dlsym = (\<lambda>h l n. Some 1),
       kpc_force_all_ctrs_get = (\<lambda>h. 0), kpc_force_all_ctrs_set = (\<lambda>h v. 0),
       kpc_set_config = (\<lambda>h c r. 0), kpc_set_counting = (\<lambda>h c. 0),
       kpc_set_thread_counting = (\<lambda>h c. 0),
       kpc_get_thread_counters = (\<lambda>h t n. (0, [])),
       kpep_db_create = (\<lambda>h. (0, Some 1)), kpep_config_create = (\<lambda>h d. (0, Some 1)),
       kpep_config_force_counters = (\<lambda>h c. 0),
       kpep_db_event = (\<lambda>h d n. (0, Some 1)), kpep_config_add_event = (\<lambda>h c e. 0),
       kpep_config_kpc_classes = (\<lambda>h c v. (0, v)), kpep_config_kpc_count = (\<lambda>h c v. (0, v)),
       kpep_config_kpc_map = (\<lambda>h c. (0, [])), kpep_config_kpc = (\<lambda>h c. (0, [])),
       sysctl_KDREADTR = (\<lambda>h n. (0, 0)) \<rparr>"

definition platform_failing_once :: platform where
  "platform_failing_once = quiet_platform\<lparr>dlopen := (\<lambda>h p. if h = [] then None else Some 1)\<rparr>"

text \<open>
  On \<open>platform_read_fails\<close> the read of the thread counters fails. In
  \<open>platform_spec_example\<close> and \<open>globals_spec_example\<close> the "before" snapshot starts with
  10 and 20, the "after" snapshot with 15 and 45, and the map with 0 and 1.
\<close>

definition platform_read_fails :: platform where
  "platform_read_fails = quiet_platform\<lparr>kpc_get_thread_counters := (\<lambda>h t n. (- 1, []))\<rparr>"

definition platform_spec_example :: platform where
  "platform_spec_example = quiet_platform\<lparr>kpc_get_thread_counters := (\<lambda>h t n. (0, [15, 45]))\<rparr>"

definition globals_spec_example :: globals where
  "globals_spec_example =
     initial_globals\<lparr>counters_0 := array_write (counters_0 initial_globals) [10, 20],
                      counter_map := array_write (counter_map initial_globals) [0, 1]\<rparr>"

text \<open>
  The database of \<open>platform_intel\<close> has three of the events of \<open>profile_events\<close> and
  none for branch misses. On \<open>platform_fixed_only\<close> the configuration has the fixed
  class only and no register; on \<open>platform_configurable\<close> it has both classes and two
  registers.
\<close>

definition intel_catalog :: "string \<Rightarrow> int \<times> pointer" where
  "intel_catalog n =
     (if n = ''CPU_CLK_UNHALTED.THREAD'' then (0, Some 10)
      else if n = ''INST_RETIRED.ANY'' then (0, Some 11)
      else if n = ''BR_INST_RETIRED.ALL_BRANCHES'' then (0, Some 12)
      else (11, None))"

definition platform_intel :: platform where
  "platform_intel = quiet_platform\<lparr>kpep_db_event := (\<lambda>h d. intel_catalog)\<rparr>"

definition platform_fixed_only :: platform where
  "platform_fixed_only =
     quiet_platform\<lparr>kpep_config_kpc_classes := (\<lambda>h c v. (0, KPC_CLASS_FIXED_MASK)),
                    kpep_config_kpc_count := (\<lambda>h c v. (0, 0))\<rparr>"

definition platform_configurable :: platform where
  "platform_configurable =
     quiet_platform\<lparr>kpep_config_kpc_classes :=
                      (\<lambda>h c v. (0, KPC_CLASS_FIXED_MASK OR KPC_CLASS_CONFIGURABLE_MASK)),
                    kpep_config_kpc_count := (\<lambda>h c v. (0, 2))\<rparr>"

text \<open>
  Records for the examples of trace decoding, with the values that the XNU header gives
  the two constants: \<open>start_record\<close> has the function flag "start", \<open>more_record\<close>
  has not. Both take the timestamp, the thread id and the four argument words.
\<close>

definition xnu_kdebug_h :: kdebug_h where
  "xnu_kdebug_h = \<lparr>KDBG_FUNC_MASK = 3, DBG_FUNC_START = 1\<rparr>"

definition start_record :: "u64 \<Rightarrow> u64 \<Rightarrow> u64 \<Rightarrow> u64 \<Rightarrow> u64 \<Rightarrow> u64 \<Rightarrow> kd_buf" where
  "start_record ts t a b c d =
     \<lparr>timestamp = ts, arg1 = a, arg2 = b, arg3 = c, arg4 = d, arg5 = t, debugid = 1, cpuid = 0\<rparr>"

definition more_record :: "u64 \<Rightarrow> u64 \<Rightarrow> u64 \<Rightarrow> u64 \<Rightarrow> u64 \<Rightarrow> u64 \<Rightarrow> kd_buf" where
  "more_record ts t a b c d =
     \<lparr>timestamp = ts, arg1 = a, arg2 = b, arg3 = c, arg4 = d, arg5 = t, debugid = 0, cpuid = 0\<rparr>"

definition empty_table :: thread_table where
  "empty_table = \<lparr>thread_capacity = 16, thread_data = []\<rparr>"

text \<open>
  Two record streams for a register count of 4, all records of the thread 7: three
  complete samples with the timestamps 100, 200 and 300, and two complete samples of
  which the first has the timestamp 0.
\<close>

definition three_samples :: "kd_buf list" where
  "three_samples =
     [start_record 100 7 1 2 3 4, start_record 200 7 5 6 7 8, start_record 300 7 9 10 11 12]"

definition zero_timestamp_samples :: "kd_buf list" where
  "zero_timestamp_samples = [start_record 0 7 1 2 3 4, start_record 200 7 5 6 7 8]"

section \<open>Properties of lib_init\<close>

lemma clear_symbols_fields:
  "lib_inited (clear_symbols ns w) = lib_inited w"
  "lib_has_err (clear_symbols ns w) = lib_has_err w"
  "lib_handle_kperf (clear_symbols ns w) = lib_handle_kperf w"
  "lib_handle_kperfdata (clear_symbols ns w) = lib_handle_kperfdata w"
  "calls (clear_symbols ns w) = calls w"
  by (induction ns arbitrary: w) simp_all

lemma clear_symbols_impl:
  "impl (clear_symbols ns w) n = (if n \<in> set ns then None else impl w n)"
  by (induction ns arbitrary: w) simp_all

lemma dlclose_if_fields:
  "lib_inited (dlclose_if h w) = lib_inited w"
  "lib_has_err (dlclose_if h w) = lib_has_err w"
  "lib_handle_kperf (dlclose_if h w) = lib_handle_kperf w"
  "lib_handle_kperfdata (dlclose_if h w) = lib_handle_kperfdata w"
  "impl (dlclose_if h w) = impl w"
  by (simp_all add: dlclose_if_def split: option.splits)

lemma lib_deinit_cleared:
  "lib_handle_kperf (lib_deinit w) = None"
  "lib_handle_kperfdata (lib_deinit w) = None"
  "n \<in> set lib_symbols_kperf \<union> set lib_symbols_kperfdata \<Longrightarrow> impl (lib_deinit w) n = None"
  "\<not> lib_inited (lib_deinit w)"
  by (auto simp: lib_deinit_def Let_def clear_symbols_fields clear_symbols_impl dlclose_if_fields)

lemma return_err_result:
  "return_err w = (ok, w') \<Longrightarrow>
     \<not> ok \<and> lib_inited w' \<and> lib_has_err w' \<and> lib_handle_kperf w' = None \<and>
     lib_handle_kperfdata w' = None \<and>
     (\<forall>n \<in> set lib_symbols_kperf \<union> set lib_symbols_kperfdata. impl w' n = None)"
  using lib_deinit_cleared [where w = w] by (auto simp: return_err_def)

lemma lib_init_cached: "lib_inited w \<Longrightarrow> lib_init P w = (\<not> lib_has_err w, w)"
  by (simp add: lib_init_def)

lemma lib_init_fresh:
  assumes "\<not> lib_inited w" "lib_init P w = (ok, w')"
  shows "lib_inited w' \<and> lib_has_err w' = (\<not> ok) \<and>
     (\<not> ok \<longrightarrow> lib_handle_kperf w' = None \<and> lib_handle_kperfdata w' = None \<and>
        (\<forall>n \<in> set lib_symbols_kperf \<union> set lib_symbols_kperfdata. impl w' n = None))"
  using assms
  unfolding lib_init_def Let_def
  by (auto split: if_splits prod.splits option.splits dest!: return_err_result)

lemma failing_once_first:
  "fst (lib_init platform_failing_once initial_globals) = False"
  "calls (snd (lib_init platform_failing_once initial_globals)) = [Dlopen lib_path_kperf, Dlerror]"
  "lib_inited (snd (lib_init platform_failing_once initial_globals))"
  "lib_has_err (snd (lib_init platform_failing_once initial_globals))"
  by (simp_all add: lib_init_def platform_failing_once_def quiet_platform_def initial_globals_def
      Let_def dlerror_call_def set_err_msg_def return_err_def lib_deinit_def dlclose_if_def
      clear_symbols_fields)

text \<open>
  C4, as the code has it: whatever a call of \<open>lib_init\<close> returns, every later call, on
  any platform, returns the same answer and leaves the state and the log of external
  calls as they are, so it loads nothing. This holds after a success and after a failure
  alike: \<open>return_err\<close> sets \<open>lib_inited\<close> and \<open>lib_has_err\<close> after \<open>lib_deinit\<close>, and the
  failure is cached. After a failed first call both handles and every function pointer
  of the two symbol tables are null.
\<close>

theorem lib_init_caches_result:
  assumes "lib_init P w = (ok, w')"
  shows "lib_init P' w' = (ok, w') \<and>
    (\<not> lib_inited w \<and> \<not> ok \<longrightarrow>
       lib_handle_kperf w' = None \<and> lib_handle_kperfdata w' = None \<and>
       (\<forall>n \<in> set lib_symbols_kperf \<union> set lib_symbols_kperfdata. impl w' n = None))"
proof (cases "lib_inited w")
  case True
  with assms have "w' = w" "ok = (\<not> lib_has_err w)"
    by (auto simp: lib_init_cached)
  with True show ?thesis
    by (simp add: lib_init_cached)
next
  case False
  from lib_init_fresh [OF False assms] show ?thesis
    using False by (simp add: lib_init_cached)
qed

theorem lib_init_caches_result_witness:
  "lib_init platform_failing_once (snd (lib_init platform_failing_once initial_globals)) =
     (False, snd (lib_init platform_failing_once initial_globals)) \<and>
   lib_handle_kperf (snd (lib_init platform_failing_once initial_globals)) = None \<and>
   lib_handle_kperfdata (snd (lib_init platform_failing_once initial_globals)) = None \<and>
   impl (snd (lib_init platform_failing_once initial_globals)) ''kpc_set_counting'' = None"
proof -
  have "lib_init platform_failing_once initial_globals =
      (False, snd (lib_init platform_failing_once initial_globals))"
    using failing_once_first(1) by (metis prod.collapse)
  from lib_init_caches_result [OF this, of platform_failing_once]
  show ?thesis
    by (simp add: initial_globals_def lib_symbols_kperf_def)
qed

text \<open>
  The claim C4 as written fails. On \<open>platform_failing_once\<close> the first call of
  \<open>lib_init\<close> fails at the first \<open>dlopen\<close>. At the second call the same \<open>dlopen\<close> would
  succeed, yet \<open>lib_init\<close> returns false again and makes no external call: the log is
  still the one of the first call.
\<close>

theorem lib_init_retry_counterexample:
  "fst (lib_init platform_failing_once initial_globals) = False \<and>
   calls (snd (lib_init platform_failing_once initial_globals)) = [Dlopen lib_path_kperf, Dlerror] \<and>
   dlopen platform_failing_once [Dlopen lib_path_kperf, Dlerror] lib_path_kperf = Some 1 \<and>
   fst (lib_init platform_failing_once (snd (lib_init platform_failing_once initial_globals))) = False \<and>
   calls (snd (lib_init platform_failing_once (snd (lib_init platform_failing_once initial_globals))))
     = [Dlopen lib_path_kperf, Dlerror]"
  by (simp add: failing_once_first lib_init_cached)
     (simp add: platform_failing_once_def quiet_platform_def)

section \<open>Properties of performance_counters_start\<close>

text \<open>
  C5: \<open>performance_counters_start\<close> first enables counting globally for \<open>classes\<close>,
  then, if that call returned 0, for the current thread, and reads the "before"
  snapshot last and only if both calls returned 0. \<open>counters_0\<close> changes only in that
  case.
\<close>

theorem start_enables_before_snapshot:
  "calls (snd (performance_counters_start P w)) =
     calls w @ [Kpc_set_counting (classes w)] @
       (if kpc_set_counting P (calls w) (classes w) \<noteq> 0 then []
        else [Kpc_set_thread_counting (classes w)] @
          (if kpc_set_thread_counting P (calls w @ [Kpc_set_counting (classes w)]) (classes w) \<noteq> 0
           then []
           else [Kpc_get_thread_counters 0 (of_nat KPC_MAX_COUNTERS)])) \<and>
   counters_0 (snd (performance_counters_start P w)) =
     (if kpc_set_counting P (calls w) (classes w) = 0 \<and>
         kpc_set_thread_counting P (calls w @ [Kpc_set_counting (classes w)]) (classes w) = 0
      then array_write (counters_0 w)
             (snd (kpc_get_thread_counters P
                (calls w @ [Kpc_set_counting (classes w), Kpc_set_thread_counting (classes w)])
                0 (of_nat KPC_MAX_COUNTERS)))
      else counters_0 w)"
  by (simp add: performance_counters_start_def Let_def split: prod.splits)

theorem start_enables_before_snapshot_witness:
  "calls (snd (performance_counters_start quiet_platform initial_globals)) =
     [Kpc_set_counting 0, Kpc_set_thread_counting 0, Kpc_get_thread_counters 0 32] \<and>
   calls (snd (performance_counters_start
      (quiet_platform\<lparr>kpc_set_thread_counting := (\<lambda>h c. - 1)\<rparr>) initial_globals)) =
     [Kpc_set_counting 0, Kpc_set_thread_counting 0]"
  using start_enables_before_snapshot [of quiet_platform initial_globals]
    start_enables_before_snapshot
      [of "quiet_platform\<lparr>kpc_set_thread_counting := (\<lambda>h c. - 1)\<rparr>" initial_globals]
  by (simp add: quiet_platform_def initial_globals_def KPC_MAX_COUNTERS_def)

section \<open>Properties of kdebug_trace_read\<close>

text \<open>
  C10: with a null \<open>buf\<close> or a zero \<open>len\<close>, \<open>kdebug_trace_read\<close> returns -1 and makes
  no external call (the state, with its log, is unchanged); the cell that a non-null
  \<open>count\<close> points to holds 0.
\<close>

theorem kdebug_trace_read_rejects:
  "buf = None \<or> len = 0 \<Longrightarrow>
     kdebug_trace_read P buf len count w =
       Inr (- 1, (case count of None \<Rightarrow> None | Some c \<Rightarrow> Some 0), w)"
  by (simp add: kdebug_trace_read_def)

theorem kdebug_trace_read_rejects_witness:
  "kdebug_trace_read quiet_platform None 64 (Some 5) initial_globals =
     Inr (- 1, Some 0, initial_globals) \<and>
   kdebug_trace_read quiet_platform (Some 1) 0 None initial_globals =
     Inr (- 1, None, initial_globals)"
  using kdebug_trace_read_rejects [of None 64 quiet_platform "Some 5" initial_globals]
    kdebug_trace_read_rejects [of "Some 1" 0 quiet_platform None initial_globals]
  by simp

section \<open>Properties of performance_counters_stop\<close>

lemma length_array_write [simp]: "length (array_write old new) = length old"
  by (simp add: array_write_def)

lemma stop_deltas_step:
  assumes "j = i + 1" "i < 4" "i < length (counter_map w)" "i < length vals"
    and "unat (counter_map w ! i) < length (counters_0 w)"
    and "unat (counter_map w ! i) < length (counters_1 w)"
  shows "stop_deltas w i vals =
     stop_deltas w j
       (vals[i := counters_1 w ! unat (counter_map w ! i) - counters_0 w ! unat (counter_map w ! i)])"
  using assms by (subst stop_deltas.simps) (simp add: Let_def)

lemma stop_deltas_done: "stop_deltas w 4 vals = Inr vals"
  by (subst stop_deltas.simps) simp

lemma stop_deltas_in_bounds:
  assumes "4 \<le> length (counter_map w)" "4 \<le> length vals"
    and "\<forall>i<4. unat (counter_map w ! i) < length (counters_0 w) \<and>
                unat (counter_map w ! i) < length (counters_1 w)"
  shows "stop_deltas w 0 vals =
     Inr (vals[0 := counters_1 w ! unat (counter_map w ! 0) - counters_0 w ! unat (counter_map w ! 0),
               1 := counters_1 w ! unat (counter_map w ! 1) - counters_0 w ! unat (counter_map w ! 1),
               2 := counters_1 w ! unat (counter_map w ! 2) - counters_0 w ! unat (counter_map w ! 2),
               3 := counters_1 w ! unat (counter_map w ! 3) - counters_0 w ! unat (counter_map w ! 3)])"
    (is "_ = Inr (vals[0 := ?d0, 1 := ?d1, 2 := ?d2, 3 := ?d3])")
proof -
  have "stop_deltas w 0 vals = stop_deltas w 1 (vals[0 := ?d0])"
    using assms by (intro stop_deltas_step) auto
  also have "\<dots> = stop_deltas w 2 (vals[0 := ?d0, 1 := ?d1])"
    using assms by (intro stop_deltas_step) auto
  also have "\<dots> = stop_deltas w 3 (vals[0 := ?d0, 1 := ?d1, 2 := ?d2])"
    using assms by (intro stop_deltas_step) auto
  also have "\<dots> = stop_deltas w 4 (vals[0 := ?d0, 1 := ?d1, 2 := ?d2, 3 := ?d3])"
    using assms by (intro stop_deltas_step) auto
  also have "\<dots> = Inr (vals[0 := ?d0, 1 := ?d1, 2 := ?d2, 3 := ?d3])"
    by (rule stop_deltas_done)
  finally show ?thesis .
qed

lemma stop_in_bounds_nth:
  assumes "stop_in_bounds w vals" "i < 4"
  shows "unat (counter_map w ! i) < KPC_MAX_COUNTERS"
proof -
  from assms have "i < length (take 4 (counter_map w))"
    by (simp add: stop_in_bounds_def arrays_sized_def KPC_MAX_COUNTERS_def)
  moreover from assms have "\<forall>m \<in> set (take 4 (counter_map w)). unat m < KPC_MAX_COUNTERS"
    by (simp add: stop_in_bounds_def list_all_iff)
  ultimately have "unat (take 4 (counter_map w) ! i) < KPC_MAX_COUNTERS"
    using nth_mem by blast
  with assms(2) show ?thesis by simp
qed

lemma stop_result:
  assumes "stop_in_bounds w vals"
  shows "performance_counters_stop P vals w =
    (let (ret, buf) = kpc_get_thread_counters P (calls w) 0 (of_nat KPC_MAX_COUNTERS);
         after = array_write (counters_1 w) buf;
         d = (\<lambda>i. after ! unat (counter_map w ! i) - counters_0 w ! unat (counter_map w ! i))
     in if ret \<noteq> 0
        then Inr (Some ''Failed get thread counters after'', vals,
               w\<lparr>counters_1 := after,
                 calls := calls w @ [Kpc_get_thread_counters 0 (of_nat KPC_MAX_COUNTERS)]\<rparr>)
        else Inr (None, vals[0 := d 0, 1 := d 1, 2 := d 2, 3 := d 3],
               w\<lparr>counters_1 := after,
                 calls := calls w @ [Kpc_get_thread_counters 0 (of_nat KPC_MAX_COUNTERS),
                   Kpc_set_counting 0, Kpc_set_thread_counting 0, Kpc_force_all_ctrs_set 0]\<rparr>))"
proof -
  obtain ret buf where rb: "kpc_get_thread_counters P (calls w) 0 (of_nat KPC_MAX_COUNTERS) = (ret, buf)"
    by (cases "kpc_get_thread_counters P (calls w) 0 (of_nat KPC_MAX_COUNTERS)")
  let ?w4 = "w\<lparr>counters_1 := array_write (counters_1 w) buf,
                 calls := calls w @ [Kpc_get_thread_counters 0 (of_nat KPC_MAX_COUNTERS),
                   Kpc_set_counting 0, Kpc_set_thread_counting 0, Kpc_force_all_ctrs_set 0]\<rparr>"
  have len: "length (counter_map w) = KPC_MAX_COUNTERS" "length (counters_0 w) = KPC_MAX_COUNTERS"
    "length (counters_1 w) = KPC_MAX_COUNTERS" "4 \<le> length vals"
    using assms by (simp_all add: stop_in_bounds_def arrays_sized_def)
  have "stop_deltas ?w4 0 vals = Inr (vals[
     0 := counters_1 ?w4 ! unat (counter_map ?w4 ! 0) - counters_0 ?w4 ! unat (counter_map ?w4 ! 0),
     1 := counters_1 ?w4 ! unat (counter_map ?w4 ! 1) - counters_0 ?w4 ! unat (counter_map ?w4 ! 1),
     2 := counters_1 ?w4 ! unat (counter_map ?w4 ! 2) - counters_0 ?w4 ! unat (counter_map ?w4 ! 2),
     3 := counters_1 ?w4 ! unat (counter_map ?w4 ! 3) - counters_0 ?w4 ! unat (counter_map ?w4 ! 3)])"
    apply (rule stop_deltas_in_bounds)
    using len stop_in_bounds_nth [OF assms]
    by (simp_all add: KPC_MAX_COUNTERS_def)
  then show ?thesis
    by (simp add: performance_counters_stop_def rb Let_def fbind_def)
qed


text \<open>
  C1, as the code has it: \<open>performance_counters_stop\<close> returns right after a failed
  read of the "after" snapshot, with the read error and without any teardown call. Only
  when the read has succeeded does it disable counting and release the forced counters;
  the return codes of these three calls are not looked at, and the function returns the
  null pointer.
\<close>

theorem stop_tears_down_after_successful_read:
  assumes "stop_in_bounds w vals"
  shows "\<exists>r vals' w'. performance_counters_stop P vals w = Inr (r, vals', w') \<and>
     (if fst (kpc_get_thread_counters P (calls w) 0 (of_nat KPC_MAX_COUNTERS)) \<noteq> 0
      then r = Some ''Failed get thread counters after'' \<and> vals' = vals \<and>
           calls w' = calls w @ [Kpc_get_thread_counters 0 (of_nat KPC_MAX_COUNTERS)]
      else r = None \<and>
           calls w' = calls w @ [Kpc_get_thread_counters 0 (of_nat KPC_MAX_COUNTERS),
             Kpc_set_counting 0, Kpc_set_thread_counting 0, Kpc_force_all_ctrs_set 0])"
proof -
  obtain ret buf where
    rb: "kpc_get_thread_counters P (calls w) 0 (of_nat KPC_MAX_COUNTERS) = (ret, buf)"
    by (cases "kpc_get_thread_counters P (calls w) 0 (of_nat KPC_MAX_COUNTERS)")
  show ?thesis
    by (cases "ret = 0") (simp_all add: stop_result [OF assms] rb Let_def)
qed

lemma initial_in_bounds: "stop_in_bounds initial_globals [0, 0, 0, 0]"
  by (simp add: stop_in_bounds_def arrays_sized_def initial_globals_def KPC_MAX_COUNTERS_def
      eval_nat_numeral)

lemma stop_read_fails:
  "performance_counters_stop platform_read_fails [0, 0, 0, 0] initial_globals =
     Inr (Some ''Failed get thread counters after'', [0, 0, 0, 0],
          initial_globals\<lparr>calls := [Kpc_get_thread_counters 0 32]\<rparr>)"
  by (simp add: stop_result [OF initial_in_bounds] platform_read_fails_def quiet_platform_def)
     (simp add: initial_globals_def array_write_def KPC_MAX_COUNTERS_def Let_def)

lemma stop_quiet:
  "performance_counters_stop quiet_platform [0, 0, 0, 0] initial_globals =
     Inr (None, [0, 0, 0, 0],
          initial_globals\<lparr>calls := [Kpc_get_thread_counters 0 32, Kpc_set_counting 0,
             Kpc_set_thread_counting 0, Kpc_force_all_ctrs_set 0]\<rparr>)"
  by (simp add: stop_result [OF initial_in_bounds] quiet_platform_def)
     (simp add: initial_globals_def array_write_def KPC_MAX_COUNTERS_def Let_def)

theorem stop_tears_down_after_successful_read_witness:
  "stop_in_bounds initial_globals [0, 0, 0, 0] \<and>
   (\<exists>w'. performance_counters_stop quiet_platform [0, 0, 0, 0] initial_globals =
      Inr (None, [0, 0, 0, 0], w') \<and>
      calls w' = [Kpc_get_thread_counters 0 32, Kpc_set_counting 0,
             Kpc_set_thread_counting 0, Kpc_force_all_ctrs_set 0])"
  using stop_tears_down_after_successful_read [OF initial_in_bounds, of quiet_platform]
  by (auto simp: initial_in_bounds stop_quiet)

text \<open>
  The claim C1 as written fails: when the read of the thread counters fails, the log holds
  the read and no teardown call.
\<close>

theorem stop_skips_teardown_counterexample:
  "performance_counters_stop platform_read_fails [0, 0, 0, 0] initial_globals =
     Inr (Some ''Failed get thread counters after'', [0, 0, 0, 0],
          initial_globals\<lparr>calls := [Kpc_get_thread_counters 0 32]\<rparr>)"
  by (rule stop_read_fails)

text \<open>
  C2, as the code has it: when \<open>performance_counters_stop\<close> returns the null pointer,
  its external calls are, in this order, the read of the thread counters,
  \<open>kpc_set_counting(0)\<close> (global counting), \<open>kpc_set_thread_counting(0)\<close> (thread
  counting) and \<open>kpc_force_all_ctrs_set(0)\<close>.
\<close>

theorem stop_teardown_order:
  "performance_counters_stop P vals w = Inr (None, vals', w') \<Longrightarrow>
     calls w' = calls w @ [Kpc_get_thread_counters 0 (of_nat KPC_MAX_COUNTERS),
       Kpc_set_counting 0, Kpc_set_thread_counting 0, Kpc_force_all_ctrs_set 0]"
  by (auto simp: performance_counters_stop_def Let_def fbind_def
      split: prod.splits if_splits sum.splits)

theorem stop_teardown_order_witness:
  "performance_counters_stop quiet_platform [0, 0, 0, 0] initial_globals =
     Inr (None, [0, 0, 0, 0],
          initial_globals\<lparr>calls := [Kpc_get_thread_counters 0 32, Kpc_set_counting 0,
             Kpc_set_thread_counting 0, Kpc_force_all_ctrs_set 0]\<rparr>) \<and>
   calls (initial_globals\<lparr>calls := [Kpc_get_thread_counters 0 32, Kpc_set_counting 0,
             Kpc_set_thread_counting 0, Kpc_force_all_ctrs_set 0]\<rparr>) =
     calls initial_globals @ [Kpc_get_thread_counters 0 (of_nat KPC_MAX_COUNTERS),
       Kpc_set_counting 0, Kpc_set_thread_counting 0, Kpc_force_all_ctrs_set 0]"
  using stop_teardown_order [OF stop_quiet] stop_quiet by simp

text \<open>
  The claim C2 as written fails: global counting is disabled before thread counting.
\<close>

theorem stop_teardown_order_counterexample:
  "performance_counters_stop quiet_platform [0, 0, 0, 0] initial_globals =
     Inr (None, [0, 0, 0, 0],
          initial_globals\<lparr>calls := [Kpc_get_thread_counters 0 32, Kpc_set_counting 0,
             Kpc_set_thread_counting 0, Kpc_force_all_ctrs_set 0]\<rparr>) \<and>
   [Kpc_get_thread_counters 0 32, Kpc_set_counting 0, Kpc_set_thread_counting 0,
      Kpc_force_all_ctrs_set 0] \<noteq>
   [Kpc_get_thread_counters 0 32, Kpc_set_thread_counting 0, Kpc_set_counting 0,
      Kpc_force_all_ctrs_set 0]"
  by (simp add: stop_quiet)

text \<open>
  C6: when the read of the "after" snapshot succeeds, \<open>performance_counters_stop\<close>
  writes, for each \<open>i\<close> below 4, \<open>counters_1[counter_map[i]] - counters_0[counter_map[i]]\<close>
  to \<open>values[i]\<close>, where \<open>counters_0\<close> is the "before" snapshot and \<open>counters_1\<close> the
  one just read; the subtraction is that of 64-bit unsigned integers. The other cells of
  \<open>values\<close> stay as they are. In the witness the snapshots start with 10, 20 and 15, 45
  and the map with 0, 1: the first two deltas are 5 and 25.
\<close>

theorem stop_computes_deltas:
  assumes "stop_in_bounds w vals"
    and "kpc_get_thread_counters P (calls w) 0 (of_nat KPC_MAX_COUNTERS) = (0, buf)"
  shows "\<exists>vals' w'. performance_counters_stop P vals w = Inr (None, vals', w') \<and>
     counters_0 w' = counters_0 w \<and> counters_1 w' = array_write (counters_1 w) buf \<and>
     counter_map w' = counter_map w \<and>
     length vals' = length vals \<and> drop 4 vals' = drop 4 vals \<and>
     (\<forall>i<4. vals' ! i = counters_1 w' ! unat (counter_map w' ! i) -
                        counters_0 w' ! unat (counter_map w' ! i))"
proof -
  let ?after = "array_write (counters_1 w) buf"
  let ?d = "\<lambda>i. ?after ! unat (counter_map w ! i) - counters_0 w ! unat (counter_map w ! i)"
  let ?vals = "vals[0 := ?d 0, 1 := ?d 1, 2 := ?d 2, 3 := ?d 3]"
  have len: "4 \<le> length vals"
    using assms(1) by (simp add: stop_in_bounds_def)
  have cases4: "i = 0 \<or> i = 1 \<or> i = 2 \<or> i = 3" if "i < 4" for i :: nat
    using that by arith
  have nth: "?vals ! 0 = ?d 0" "?vals ! 1 = ?d 1" "?vals ! 2 = ?d 2" "?vals ! 3 = ?d 3"
  proof -
    from len have "vals \<noteq> []" by auto
    with len show "?vals ! 0 = ?d 0" "?vals ! 1 = ?d 1" "?vals ! 2 = ?d 2" "?vals ! 3 = ?d 3"
      by (simp_all add: nth_list_update)
  qed
  have "\<forall>i<4. ?vals ! i = ?d i"
    using nth cases4 by blast
  moreover have "drop 4 ?vals = drop 4 vals"
    by simp
  ultimately show ?thesis
    by (simp add: stop_result [OF assms(1)] assms(2) Let_def)
qed

lemma example_in_bounds: "stop_in_bounds globals_spec_example [0, 0, 0, 0]"
  by (simp add: stop_in_bounds_def arrays_sized_def globals_spec_example_def initial_globals_def
      KPC_MAX_COUNTERS_def array_write_def eval_nat_numeral)

theorem stop_computes_deltas_witness:
  "stop_in_bounds globals_spec_example [0, 0, 0, 0] \<and>
   kpc_get_thread_counters platform_spec_example (calls globals_spec_example) 0
     (of_nat KPC_MAX_COUNTERS) = (0, [15, 45]) \<and>
   take 2 (counters_0 globals_spec_example) = [10, 20] \<and>
   take 2 (counter_map globals_spec_example) = [0, 1] \<and>
   (\<exists>vals' w'. performance_counters_stop platform_spec_example [0, 0, 0, 0] globals_spec_example =
        Inr (None, vals', w') \<and> take 2 (counters_1 w') = [15, 45] \<and>
        vals' ! 0 = 5 \<and> vals' ! 1 = 25)"
proof -
  have r: "kpc_get_thread_counters platform_spec_example (calls globals_spec_example) 0
     (of_nat KPC_MAX_COUNTERS) = (0, [15, 45])"
    by (simp add: platform_spec_example_def quiet_platform_def)
  have v: "take 2 (counters_0 globals_spec_example) = [10, 20]"
     "take 2 (counter_map globals_spec_example) = [0, 1]"
     "take 2 (array_write (counters_1 globals_spec_example) [15, 45]) = [15, 45]"
    by (simp_all add: globals_spec_example_def initial_globals_def array_write_def
        KPC_MAX_COUNTERS_def eval_nat_numeral)
  have n: "counters_0 globals_spec_example ! 0 = 10" "counters_0 globals_spec_example ! 1 = 20"
     "counter_map globals_spec_example ! 0 = 0" "counter_map globals_spec_example ! 1 = 1"
     "array_write (counters_1 globals_spec_example) [15, 45] ! 0 = 15"
     "array_write (counters_1 globals_spec_example) [15, 45] ! 1 = 45"
    by (simp_all add: globals_spec_example_def initial_globals_def array_write_def
        KPC_MAX_COUNTERS_def eval_nat_numeral)
  from stop_computes_deltas [OF example_in_bounds r]
  obtain vals' w' where
    s: "performance_counters_stop platform_spec_example [0, 0, 0, 0] globals_spec_example =
        Inr (None, vals', w')"
    and c: "counters_0 w' = counters_0 globals_spec_example"
      "counters_1 w' = array_write (counters_1 globals_spec_example) [15, 45]"
      "counter_map w' = counter_map globals_spec_example"
    and d: "\<forall>i<4. vals' ! i = counters_1 w' ! unat (counter_map w' ! i) -
                        counters_0 w' ! unat (counter_map w' ! i)"
    by blast
  have "vals' ! 0 = 5" "vals' ! 1 = 25"
    using d c n by auto
  with s c v show ?thesis
    by (simp add: example_in_bounds r)
qed

section \<open>Properties of get_event and performance_counters_init\<close>

lemma candidates_from_0: "candidates_from a 0 = candidates a"
  by (simp add: candidates_from_def candidates_def)

lemma candidates_from_end: "EVENT_NAME_MAX \<le> j \<Longrightarrow> candidates_from a j = []"
  by (simp add: candidates_from_def)

lemma candidates_from_None:
  "name_at a j = None \<Longrightarrow> candidates_from a j = []"
proof (cases "j < length (take EVENT_NAME_MAX (names a))")
  case True
  assume "name_at a j = None"
  with True have "take EVENT_NAME_MAX (names a) ! j = None"
    by (simp add: name_at_def split: if_splits)
  with True have "drop j (take EVENT_NAME_MAX (names a)) = None # drop (Suc j) (take EVENT_NAME_MAX (names a))"
    by (metis Cons_nth_drop_Suc)
  then show ?thesis
    by (simp add: candidates_from_def)
next
  case False
  then have "length (take EVENT_NAME_MAX (names a)) \<le> j"
    by (simp only: not_less)
  then have "drop j (take EVENT_NAME_MAX (names a)) = []"
    by (rule drop_all)
  then show ?thesis
    by (simp add: candidates_from_def)
qed

lemma candidates_from_Some:
  assumes "j < EVENT_NAME_MAX" "name_at a j = Some name"
  shows "candidates_from a j = name # candidates_from a (j + 1)"
proof -
  from assms have l: "j < length (take EVENT_NAME_MAX (names a))"
    by (simp add: name_at_def split: if_splits)
  with assms have "take EVENT_NAME_MAX (names a) ! j = Some name"
    by (simp add: name_at_def split: if_splits)
  with l have "drop j (take EVENT_NAME_MAX (names a)) = Some name # drop (Suc j) (take EVENT_NAME_MAX (names a))"
    by (metis Cons_nth_drop_Suc)
  then show ?thesis
    by (simp add: candidates_from_def)
qed

lemma get_event_from_catalog:
  assumes "\<forall>h n. kpep_db_event P h d n = cat n"
  shows "get_event_from P d a j w =
     (case find (\<lambda>n. fst (cat n) = 0) (candidates_from a j) of None \<Rightarrow> None | Some n \<Rightarrow> snd (cat n),
      w\<lparr>calls := calls w @ map (Kpep_db_event d)
           (takeWhile (\<lambda>n. fst (cat n) \<noteq> 0) (candidates_from a j) @
            take 1 (dropWhile (\<lambda>n. fst (cat n) \<noteq> 0) (candidates_from a j)))\<rparr>)"
  using assms
proof (induction P d a j w rule: get_event_from.induct)
  case (1 P d a j w)
  note cat = "1.prems"
  show ?case
  proof (cases "j < EVENT_NAME_MAX")
    case False
    then show ?thesis
      by (subst get_event_from.simps) (simp add: candidates_from_end)
  next
    case True
    show ?thesis
    proof (cases "name_at a j")
      case None
      with True show ?thesis
        by (subst get_event_from.simps) (simp add: candidates_from_None)
    next
      case (Some name)
      obtain ret ev where c: "cat name = (ret, ev)"
        by (cases "cat name")
      have k: "kpep_db_event P (calls w) d name = (ret, ev)"
        using cat c by simp
      show ?thesis
      proof (cases "ret = 0")
        case True
        with \<open>j < EVENT_NAME_MAX\<close> Some c k show ?thesis
          by (subst get_event_from.simps) (simp add: candidates_from_Some)
      next
        case False
        note ih = "1.IH" [OF True Some k [symmetric] refl refl False cat]
        have "get_event_from P d a j w =
           get_event_from P d a (j + 1) (w\<lparr>calls := calls w @ [Kpep_db_event d name]\<rparr>)"
          using True Some k False by (subst get_event_from.simps) simp
        with ih False True Some c show ?thesis
          by (simp add: candidates_from_Some)
      qed
    qed
  qed
qed


lemma quiet_ext_refl: "calls w' = calls w \<Longrightarrow> quiet_ext w w'"
  by (simp add: quiet_ext_def)

lemma quiet_ext_trans: "quiet_ext w w1 \<Longrightarrow> quiet_ext w1 w2 \<Longrightarrow> quiet_ext w w2"
  by (auto simp: quiet_ext_def)

lemma quiet_ext_step:
  "\<not> is_set_config c \<Longrightarrow> calls w' = calls w @ [c] \<Longrightarrow> quiet_ext w w'"
  by (simp add: quiet_ext_def)

lemma dlclose_if_quiet: "quiet_ext w (dlclose_if h w)"
  by (cases h) (simp_all add: dlclose_if_def quiet_ext_def)

lemma lib_deinit_quiet: "quiet_ext w (lib_deinit w)"
proof -
  let ?w1 = "w\<lparr>lib_inited := False, lib_has_err := False\<rparr>"
  let ?w2 = "dlclose_if (lib_handle_kperf ?w1) ?w1"
  let ?w3 = "dlclose_if (lib_handle_kperfdata ?w2) ?w2"
  have "quiet_ext w ?w1" by (simp add: quiet_ext_refl)
  moreover have "quiet_ext ?w1 ?w2" by (rule dlclose_if_quiet)
  ultimately have "quiet_ext w ?w2" by (rule quiet_ext_trans)
  moreover have "quiet_ext ?w2 ?w3" by (rule dlclose_if_quiet)
  ultimately have "quiet_ext w ?w3" by (rule quiet_ext_trans)
  moreover have "calls (lib_deinit w) = calls ?w3"
    by (simp add: lib_deinit_def Let_def clear_symbols_fields)
  ultimately show ?thesis
    by (simp add: quiet_ext_def)
qed

lemma return_err_quiet: "quiet_ext w (snd (return_err w))"
  using lib_deinit_quiet [of w] by (simp add: return_err_def quiet_ext_def)

lemma load_symbols_quiet: "quiet_ext w (snd (load_symbols P h ns w))"
proof (induction ns arbitrary: w)
  case Nil
  show ?case by (simp add: quiet_ext_refl)
next
  case (Cons name rest)
  let ?w1 = "w\<lparr>impl := (impl w)(name := dlsym P (calls w) h name),
                 calls := calls w @ [Dlsym h name]\<rparr>"
  have q: "quiet_ext w ?w1"
    by (rule quiet_ext_step [where c = "Dlsym h name"]) simp_all
  show ?case
  proof (cases "dlsym P (calls w) h name")
    case None
    with q show ?thesis by (simp add: Let_def)
  next
    case (Some p)
    then have "snd (load_symbols P h (name # rest) w) = snd (load_symbols P h rest ?w1)"
      by (simp add: Let_def)
    with quiet_ext_trans [OF q Cons.IH [of ?w1]] show ?thesis
      by simp
  qed
qed

lemma fail_quiet:
  assumes "quiet_ext w v"
  shows "quiet_ext w (snd (return_err (set_err_msg m v)))"
proof -
  have "quiet_ext v (set_err_msg m v)"
    by (simp add: set_err_msg_def quiet_ext_refl)
  moreover have "quiet_ext (set_err_msg m v) (snd (return_err (set_err_msg m v)))"
    by (rule return_err_quiet)
  ultimately have "quiet_ext v (snd (return_err (set_err_msg m v)))"
    by (rule quiet_ext_trans)
  with assms show ?thesis
    by (rule quiet_ext_trans)
qed

lemma lib_init_quiet: "quiet_ext w (snd (lib_init P w))"
proof (cases "lib_inited w")
  case True
  then show ?thesis by (simp add: lib_init_cached quiet_ext_refl)
next
  case False
  let ?w1 = "w\<lparr>lib_handle_kperf := dlopen P (calls w) lib_path_kperf,
                 calls := calls w @ [Dlopen lib_path_kperf]\<rparr>"
  let ?w3 = "?w1\<lparr>lib_handle_kperfdata := dlopen P (calls ?w1) lib_path_kperfdata,
                   calls := calls ?w1 @ [Dlopen lib_path_kperfdata]\<rparr>"
  have q1: "quiet_ext w ?w1"
    by (rule quiet_ext_step [where c = "Dlopen lib_path_kperf"]) simp_all
  have "quiet_ext ?w1 ?w3"
    by (rule quiet_ext_step [where c = "Dlopen lib_path_kperfdata"]) simp_all
  with q1 have q3: "quiet_ext w ?w3"
    by (rule quiet_ext_trans)
  have derr: "quiet_ext v (snd (dlerror_call P v))" for v
    by (simp add: dlerror_call_def quiet_ext_def)
  show ?thesis
  proof (cases "dlopen P (calls w) lib_path_kperf")
    case None
    have "lib_init P w = return_err (set_err_msg
        (''Failed to load kperf.framework, message: '' @ fst (dlerror_call P ?w1) @ ''.'')
        (snd (dlerror_call P ?w1)))"
      using False None by (simp add: lib_init_def Let_def split_beta)
    moreover have "quiet_ext w (snd (dlerror_call P ?w1))"
      using q1 derr by (rule quiet_ext_trans)
    ultimately show ?thesis
      by (simp only: fail_quiet)
  next
    case (Some h1)
    show ?thesis
    proof (cases "dlopen P (calls w @ [Dlopen lib_path_kperf]) lib_path_kperfdata")
      case None
      have "lib_init P w = return_err (set_err_msg
          (''Failed to load kperfdata.framework, message: '' @ fst (dlerror_call P ?w3) @ ''.'')
          (snd (dlerror_call P ?w3)))"
        using False Some None by (simp add: lib_init_def Let_def split_beta)
      moreover have "quiet_ext w (snd (dlerror_call P ?w3))"
        using q3 derr by (rule quiet_ext_trans)
      ultimately show ?thesis
        by (simp only: fail_quiet)
    next
      case h2: (Some h2)
      obtain r5 w5 where l5: "load_symbols P (Some h1) lib_symbols_kperf ?w3 = (r5, w5)"
        by (cases "load_symbols P (Some h1) lib_symbols_kperf ?w3")
      obtain r6 w6 where l6: "load_symbols P (lib_handle_kperfdata w5) lib_symbols_kperfdata w5 = (r6, w6)"
        by (cases "load_symbols P (lib_handle_kperfdata w5) lib_symbols_kperfdata w5")
      have "quiet_ext ?w3 w5"
        using load_symbols_quiet [of ?w3 P "Some h1" lib_symbols_kperf] l5 by simp
      with q3 have q5: "quiet_ext w w5"
        by (rule quiet_ext_trans)
      have "quiet_ext w5 w6"
        using load_symbols_quiet [of w5 P "lib_handle_kperfdata w5" lib_symbols_kperfdata] l6 by simp
      with q5 have q6: "quiet_ext w w6"
        by (rule quiet_ext_trans)
      show ?thesis
      proof (cases r5)
        case (Some name)
        have "lib_init P w = return_err (set_err_msg
            (''Failed to load kperf function: '' @ name @ ''.'') w5)"
          using False \<open>dlopen P (calls w) lib_path_kperf = Some h1\<close> h2 l5 Some
          by (simp add: lib_init_def Let_def)
        with q5 show ?thesis
          by (simp only: fail_quiet)
      next
        case None
        show ?thesis
        proof (cases r6)
          case (Some name)
          have "lib_init P w = return_err (set_err_msg
              (''Failed to load kperfdata function: '' @ name @ ''.'') w6)"
            using False \<open>dlopen P (calls w) lib_path_kperf = Some h1\<close> h2 l5 None l6 Some
            by (simp add: lib_init_def Let_def)
          with q6 show ?thesis
            by (simp only: fail_quiet)
        next
          case n6: None
          have "lib_init P w = (True, w6\<lparr>lib_inited := True, lib_has_err := False\<rparr>)"
            using False \<open>dlopen P (calls w) lib_path_kperf = Some h1\<close> h2 l5 None l6 n6
            by (simp add: lib_init_def Let_def)
          with q6 show ?thesis
            by (simp add: quiet_ext_def)
        qed
      qed
    qed
  qed
qed


lemma get_event_from_frame:
  "snd (get_event_from P d a j w) = w\<lparr>calls := calls (snd (get_event_from P d a j w))\<rparr> \<and>
   quiet_ext w (snd (get_event_from P d a j w))"
proof (induction P d a j w rule: get_event_from.induct)
  case (1 P d a j w)
  show ?case
  proof (cases "j < EVENT_NAME_MAX")
    case False
    then show ?thesis
      by (subst (1 2 3) get_event_from.simps) (simp add: quiet_ext_refl)
  next
    case True
    show ?thesis
    proof (cases "name_at a j")
      case None
      with True show ?thesis
        by (subst (1 2 3) get_event_from.simps) (simp add: quiet_ext_refl)
    next
      case (Some name)
      obtain ret ev where k: "kpep_db_event P (calls w) d name = (ret, ev)"
        by (cases "kpep_db_event P (calls w) d name")
      let ?w1 = "w\<lparr>calls := calls w @ [Kpep_db_event d name]\<rparr>"
      have q: "quiet_ext w ?w1"
        by (rule quiet_ext_step [where c = "Kpep_db_event d name"]) simp_all
      show ?thesis
      proof (cases "ret = 0")
        case True
        with \<open>j < EVENT_NAME_MAX\<close> Some k q show ?thesis
          by (subst (1 2 3) get_event_from.simps) simp
      next
        case False
        note ih = "1.IH" [OF True Some k [symmetric] refl refl False]
        have e: "get_event_from P d a j w = get_event_from P d a (j + 1) ?w1"
          using True Some k False by (subst get_event_from.simps) simp
        from ih have "snd (get_event_from P d a (j + 1) ?w1) =
            w\<lparr>calls := calls (snd (get_event_from P d a (j + 1) ?w1))\<rparr>"
          by (metis (no_types, lifting) globals.surjective globals.update_convs(16))
        moreover from ih q have "quiet_ext w (snd (get_event_from P d a (j + 1) ?w1))"
          by (blast intro: quiet_ext_trans)
        ultimately show ?thesis
          by (simp only: e)
      qed
    qed
  qed
qed


lemma get_event_frame:
  "db (snd (get_event P d a w)) = db w"
  "cfg (snd (get_event P d a w)) = cfg w"
  "ev_arr (snd (get_event P d a w)) = ev_arr w"
  "quiet_ext w (snd (get_event P d a w))"
proof -
  from get_event_from_frame [of P d a 0 w]
  have f: "snd (get_event P d a w) = w\<lparr>calls := calls (snd (get_event P d a w))\<rparr>"
    and q: "quiet_ext w (snd (get_event P d a w))"
    by (simp_all add: get_event_def)
  show "quiet_ext w (snd (get_event P d a w))" by (rule q)
  show "db (snd (get_event P d a w)) = db w" by (subst f) simp
  show "cfg (snd (get_event P d a w)) = cfg w" by (subst f) simp
  show "ev_arr (snd (get_event P d a w)) = ev_arr w" by (subst f) simp
qed

lemma get_event_catalog:
  assumes "\<forall>h n. kpep_db_event P h d n = cat n"
  shows "get_event P d a w =
     (resolve cat a, w\<lparr>calls := calls w @ map (Kpep_db_event d) (tried cat a)\<rparr>)"
  by (simp add: get_event_def get_event_from_catalog [OF assms] candidates_from_0
      resolve_def tried_def)

lemma init_get_events_step:
  assumes "i < ev_count"
  shows "init_get_events P i w =
     (let ev = fst (get_event P (db w) (profile_events ! i) w);
          w2 = (snd (get_event P (db w) (profile_events ! i) w))
                 \<lparr>ev_arr := (ev_arr w)[i := ev]\<rparr>
      in if ev_arr w2 ! i = None then (Some (alias_name (profile_events ! i)), w2)
         else init_get_events P (i + 1) w2)"
  using assms
  by (subst init_get_events.simps) (simp add: Let_def split_beta get_event_frame)

lemma init_get_events_quiet: "quiet_ext w (snd (init_get_events P i w))"
proof (induction "ev_count - i" arbitrary: i w)
  case 0
  then show ?case
    by (subst init_get_events.simps) (simp add: quiet_ext_refl)
next
  case (Suc n)
  then have i: "i < ev_count" by simp
  let ?w2 = "(snd (get_event P (db w) (profile_events ! i) w))
                 \<lparr>ev_arr := (ev_arr w)[i := fst (get_event P (db w) (profile_events ! i) w)]\<rparr>"
  have q: "quiet_ext w ?w2"
    using get_event_frame(4) [of w P "db w" "profile_events ! i"] by (simp add: quiet_ext_def)
  show ?case
  proof (cases "ev_arr ?w2 ! i = None")
    case True
    with q i show ?thesis
      by (simp add: init_get_events_step Let_def)
  next
    case False
    from Suc have "n = ev_count - (i + 1)" by simp
    from Suc.hyps(1) [OF this, of ?w2] q
    have "quiet_ext w (snd (init_get_events P (i + 1) ?w2))"
      by (rule quiet_ext_trans [rotated])
    with False i show ?thesis
      by (auto simp: init_get_events_step Let_def)
  qed
qed

lemma init_get_events_first_unresolved:
  assumes "\<forall>h n. kpep_db_event P h (db w) n = cat n" "length (ev_arr w) = ev_count"
    and "i \<le> k" "k < ev_count"
    and "\<forall>j. i \<le> j \<and> j < k \<longrightarrow> resolve cat (profile_events ! j) \<noteq> None"
    and "resolve cat (profile_events ! k) = None"
  shows "fst (init_get_events P i w) = Some (alias_name (profile_events ! k))"
  using assms
proof (induction "k - i" arbitrary: i w)
  case 0
  then have "i = k" by simp
  have "fst (get_event P (db w) (profile_events ! i) w) = resolve cat (profile_events ! i)"
    using "0.prems"(1) by (simp add: get_event_catalog [where cat = cat])
  with 0 \<open>i = k\<close> show ?case
    by (auto simp: init_get_events_step Let_def)
next
  case (Suc n)
  then have i: "i < ev_count" "i < k" by simp_all
  let ?w2 = "(snd (get_event P (db w) (profile_events ! i) w))
                 \<lparr>ev_arr := (ev_arr w)[i := fst (get_event P (db w) (profile_events ! i) w)]\<rparr>"
  from Suc.prems i have r: "resolve cat (profile_events ! i) \<noteq> None"
    by simp
  have g: "fst (get_event P (db w) (profile_events ! i) w) = resolve cat (profile_events ! i)"
    using Suc.prems(1) by (simp add: get_event_catalog [where cat = cat])
  have "fst (init_get_events P i w) = fst (init_get_events P (i + 1) ?w2)"
    using i r g Suc.prems(2) by (auto simp: init_get_events_step Let_def)
  moreover have "fst (init_get_events P (i + 1) ?w2) = Some (alias_name (profile_events ! k))"
  proof (rule Suc.hyps(1))
    show "n = k - (i + 1)" using Suc.hyps(2) by simp
    show "\<forall>h n. kpep_db_event P h (db ?w2) n = cat n"
      using Suc.prems(1) by (simp add: get_event_frame)
    show "length (ev_arr ?w2) = ev_count" using Suc.prems(2) by simp
    show "i + 1 \<le> k" using i by simp
    show "k < ev_count" by (rule Suc.prems(4))
    show "\<forall>j. i + 1 \<le> j \<and> j < k \<longrightarrow> resolve cat (profile_events ! j) \<noteq> None"
      using Suc.prems(5) by simp
    show "resolve cat (profile_events ! k) = None" by (rule Suc.prems(6))
  qed
  ultimately show ?case by simp
qed

lemma and_then_Some: "fst r = Some m \<Longrightarrow> fst (and_then r f) = Some m"
  by (cases r) (simp add: and_then_def)

lemma and_then_None: "r = (None, w) \<Longrightarrow> and_then r f = f w"
  by (simp add: and_then_def)

text \<open>
  C3: for a database that answers the lookups of a name by a fixed catalog, \<open>get_event\<close>
  looks the candidates of the alias up in list order, stops at the first one the database
  has and returns its handle (never that of a later candidate); when the database has
  none of the candidates before the null terminator, it returns the null pointer. When
  \<open>performance_counters_init\<close> gets as far as the event loop and the alias \<open>k\<close> is the
  first that resolves to the null pointer, it returns the display name of that alias.
\<close>

theorem get_event_first_match:
  assumes "\<forall>h n. kpep_db_event P h d n = cat n"
  shows "get_event P d a w =
       (resolve cat a, w\<lparr>calls := calls w @ map (Kpep_db_event d) (tried cat a)\<rparr>) \<and>
     (init_create_config P w0 = (None, w) \<and> db w = d \<and> arrays_sized w \<and> k < ev_count \<and>
      (\<forall>j<k. resolve cat (profile_events ! j) \<noteq> None) \<and>
      resolve cat (profile_events ! k) = None \<longrightarrow>
        fst (performance_counters_init P w0) = Some (alias_name (profile_events ! k)))"
proof (intro conjI impI)
  show "get_event P d a w =
       (resolve cat a, w\<lparr>calls := calls w @ map (Kpep_db_event d) (tried cat a)\<rparr>)"
    by (rule get_event_catalog [OF assms])
next
  assume h: "init_create_config P w0 = (None, w) \<and> db w = d \<and> arrays_sized w \<and> k < ev_count \<and>
      (\<forall>j<k. resolve cat (profile_events ! j) \<noteq> None) \<and>
      resolve cat (profile_events ! k) = None"
  have "fst (init_get_events P 0 w) = Some (alias_name (profile_events ! k))"
    using assms h
    by (intro init_get_events_first_unresolved [where cat = cat]) (auto simp: arrays_sized_def)
  then have "fst (and_then (init_create_config P w0) (init_get_events P 0)) =
      Some (alias_name (profile_events ! k))"
    using h by (simp add: and_then_None)
  then show "fst (performance_counters_init P w0) = Some (alias_name (profile_events ! k))"
    by (simp add: performance_counters_init_def init_build_config_def and_then_Some)
qed


lemma init_add_events_quiet: "quiet_ext w (snd (init_add_events P i w))"
proof (induction "ev_count - i" arbitrary: i w)
  case 0
  then show ?case
    by (subst init_add_events.simps) (simp add: quiet_ext_refl)
next
  case (Suc n)
  then have i: "i < ev_count" by simp
  let ?w1 = "w\<lparr>calls := calls w @ [Kpep_config_add_event (cfg w) (ev_arr w ! i)]\<rparr>"
  have q: "quiet_ext w ?w1"
    by (rule quiet_ext_step [where c = "Kpep_config_add_event (cfg w) (ev_arr w ! i)"]) simp_all
  show ?case
  proof (cases "kpep_config_add_event P (calls w) (cfg w) (ev_arr w ! i) = 0")
    case False
    with q i show ?thesis
      by (subst init_add_events.simps) (simp add: Let_def)
  next
    case True
    from Suc have "n = ev_count - (i + 1)" by simp
    from Suc.hyps(1) [OF this, of ?w1] q
    have "quiet_ext w (snd (init_add_events P (i + 1) ?w1))"
      by (rule quiet_ext_trans [rotated])
    with True i show ?thesis
      by (subst init_add_events.simps) (simp add: Let_def)
  qed
qed

lemma init_query_config_quiet: "quiet_ext w (snd (init_query_config P w))"
  by (simp add: init_query_config_def Let_def quiet_ext_def split: prod.splits)

lemma init_create_config_quiet: "quiet_ext w (snd (init_create_config P w))"
proof -
  obtain ok w1 where l: "lib_init P w = (ok, w1)"
    by (cases "lib_init P w")
  have q1: "quiet_ext w w1"
    using lib_init_quiet [of w P] l by simp
  have "quiet_ext w1 (snd (init_create_config P w))"
    using l by (simp add: init_create_config_def Let_def quiet_ext_def split: prod.splits)
  with q1 show ?thesis
    by (rule quiet_ext_trans)
qed

lemma and_then_quiet:
  assumes "quiet_ext w (snd r)" "\<And>v. quiet_ext v (snd (f v))"
  shows "quiet_ext w (snd (and_then r f))"
proof (cases r)
  case (Pair m v)
  show ?thesis
  proof (cases m)
    case None
    with Pair assms(1) assms(2) [of v] show ?thesis
      by (auto simp: and_then_def intro: quiet_ext_trans)
  next
    case (Some msg)
    with Pair assms(1) show ?thesis
      by (simp add: and_then_def)
  qed
qed

lemma init_build_config_quiet: "quiet_ext w (snd (init_build_config P w))"
  unfolding init_build_config_def
  by (intro and_then_quiet init_create_config_quiet init_get_events_quiet
      init_add_events_quiet init_query_config_quiet)

text \<open>
  C7: \<open>performance_counters_init\<close> calls \<open>kpc_set_config\<close> if and only if it gets as
  far as "set config to kernel", forcing the counters succeeds, the class mask has
  the configurable class and \<open>reg_count\<close> is not zero. When it gets that far and the
  class mask lacks the configurable class or \<open>reg_count\<close> is zero, it returns the null
  pointer of success. In the witness the mask is the fixed class alone and
  \<open>reg_count\<close> is 0.
\<close>

theorem init_writes_registers_iff:
  "(list_ex is_set_config
      (drop (length (calls w)) (calls (snd (performance_counters_init P w)))) \<longleftrightarrow>
      fst (init_build_config P w) = None \<and>
      kpc_force_all_ctrs_set P (calls (snd (init_build_config P w))) 1 = 0 \<and>
      classes (snd (init_build_config P w)) AND KPC_CLASS_CONFIGURABLE_MASK \<noteq> 0 \<and>
      reg_count (snd (init_build_config P w)) \<noteq> 0) \<and>
   (fst (init_build_config P w) = None \<and>
    kpc_force_all_ctrs_set P (calls (snd (init_build_config P w))) 1 = 0 \<and>
    (classes (snd (init_build_config P w)) AND KPC_CLASS_CONFIGURABLE_MASK = 0 \<or>
     reg_count (snd (init_build_config P w)) = 0) \<longrightarrow>
      fst (performance_counters_init P w) = None)"
proof -
  obtain r w1 where b: "init_build_config P w = (r, w1)"
    by (cases "init_build_config P w")
  from init_build_config_quiet [of w P] b
  obtain xs where xs: "calls w1 = calls w @ xs" "\<not> list_ex is_set_config xs"
    by (auto simp: quiet_ext_def)
  show ?thesis
  proof (cases r)
    case (Some msg)
    with b xs show ?thesis
      by (simp add: performance_counters_init_def and_then_def)
  next
    case None
    with b xs show ?thesis
      by (simp add: performance_counters_init_def and_then_def init_set_config_def Let_def)
  qed
qed


lemmas eval_defs = init_build_config_def and_then_def init_create_config_def lib_init_def Let_def
  initial_globals_def lib_symbols_kperf_def lib_symbols_kperfdata_def
  quiet_platform_def init_get_events.simps init_add_events.simps get_event_def get_event_from.simps
  ev_count_def EVENT_NAME_MAX_def profile_events_def name_at_def init_query_config_def
  array_write_def KPC_MAX_COUNTERS_def

lemma intel_create_config:
  "\<exists>v. init_create_config platform_intel initial_globals = (None, v) \<and> db v = Some 1 \<and>
       arrays_sized v"
  by (simp add: eval_defs platform_intel_def arrays_sized_def)

lemma intel_resolve:
  "resolve intel_catalog (profile_events ! 0) = Some 10"
  "resolve intel_catalog (profile_events ! 1) = Some 11"
  "resolve intel_catalog (profile_events ! 2) = Some 12"
  "resolve intel_catalog (profile_events ! 3) = None"
  "tried intel_catalog (profile_events ! 2) = [''INST_BRANCH'', ''BR_INST_RETIRED.ALL_BRANCHES'']"
  "alias_name (profile_events ! 3) = ''branch-misses''"
  by (simp_all add: resolve_def tried_def candidates_def profile_events_def intel_catalog_def
      EVENT_NAME_MAX_def)

theorem get_event_first_match_witness:
  "get_event platform_intel (Some 1) (profile_events ! 2) initial_globals =
     (Some 12, initial_globals\<lparr>calls :=
        [Kpep_db_event (Some 1) ''INST_BRANCH'',
         Kpep_db_event (Some 1) ''BR_INST_RETIRED.ALL_BRANCHES'']\<rparr>) \<and>
   fst (intel_catalog ''INST_RETIRED.ANY'') = 0 \<and>
   fst (performance_counters_init platform_intel initial_globals) = Some ''branch-misses''"
proof -
  obtain v where v: "init_create_config platform_intel initial_globals = (None, v)"
      "db v = Some 1" "arrays_sized v"
    using intel_create_config by blast
  have c: "\<forall>h n. kpep_db_event platform_intel h (Some 1) n = intel_catalog n"
    by (simp add: platform_intel_def)
  have r: "\<forall>j<3. resolve intel_catalog (profile_events ! j) \<noteq> None"
  proof (intro allI impI)
    fix j :: nat
    assume "j < 3"
    then have "j = 0 \<or> j = 1 \<or> j = 2" by arith
    then show "resolve intel_catalog (profile_events ! j) \<noteq> None"
      using intel_resolve(1-3) by auto
  qed
  have "get_event platform_intel (Some 1) (profile_events ! 2) initial_globals =
     (resolve intel_catalog (profile_events ! 2),
      initial_globals\<lparr>calls := calls initial_globals @
         map (Kpep_db_event (Some 1)) (tried intel_catalog (profile_events ! 2))\<rparr>)"
    using get_event_first_match [OF c, where a = "profile_events ! 2" and w = initial_globals]
    by blast
  moreover have "fst (performance_counters_init platform_intel initial_globals) =
      Some (alias_name (profile_events ! 3))"
    using get_event_first_match [OF c, where w = v and ?w0.0 = initial_globals and k = 3] v r
    by (simp add: intel_resolve ev_count_def)
  ultimately show ?thesis
    by (simp add: intel_resolve initial_globals_def intel_catalog_def)
qed

lemma fixed_only_build:
  "\<exists>v. init_build_config platform_fixed_only initial_globals = (None, v) \<and>
       classes v = KPC_CLASS_FIXED_MASK \<and> reg_count v = 0"
  by (simp add: eval_defs platform_fixed_only_def)

lemma configurable_build:
  "\<exists>v. init_build_config platform_configurable initial_globals = (None, v) \<and>
       classes v = KPC_CLASS_FIXED_MASK OR KPC_CLASS_CONFIGURABLE_MASK \<and> reg_count v = 2"
  by (simp add: eval_defs platform_configurable_def)

theorem init_writes_registers_iff_witness:
  "fst (performance_counters_init platform_fixed_only initial_globals) = None \<and>
   \<not> list_ex is_set_config
       (calls (snd (performance_counters_init platform_fixed_only initial_globals))) \<and>
   list_ex is_set_config
       (calls (snd (performance_counters_init platform_configurable initial_globals)))"
proof -
  obtain v where v: "init_build_config platform_fixed_only initial_globals = (None, v)"
      "classes v = KPC_CLASS_FIXED_MASK" "reg_count v = 0"
    using fixed_only_build by blast
  obtain u where u: "init_build_config platform_configurable initial_globals = (None, u)"
      "classes u = KPC_CLASS_FIXED_MASK OR KPC_CLASS_CONFIGURABLE_MASK" "reg_count u = 2"
    using configurable_build by blast
  have f: "kpc_force_all_ctrs_set platform_fixed_only h 1 = 0"
    "kpc_force_all_ctrs_set platform_configurable h 1 = 0" for h
    by (simp_all add: platform_fixed_only_def platform_configurable_def quiet_platform_def)
  have m: "KPC_CLASS_FIXED_MASK AND KPC_CLASS_CONFIGURABLE_MASK = 0"
    "(KPC_CLASS_FIXED_MASK OR KPC_CLASS_CONFIGURABLE_MASK) AND KPC_CLASS_CONFIGURABLE_MASK \<noteq> 0"
    by (simp_all add: KPC_CLASS_FIXED_MASK_def KPC_CLASS_CONFIGURABLE_MASK_def)
  from init_writes_registers_iff [of initial_globals platform_fixed_only]
    init_writes_registers_iff [of initial_globals platform_configurable]
  show ?thesis
    using v u f m by (simp add: initial_globals_def)
qed

section \<open>Properties of the trace decoding\<close>

lemma take_take_append: "take n (take n xs @ ys) = take n (xs @ ys)"
  by (cases "n \<le> length xs") simp_all

lemma put_if_take:
  assumes "counter_count \<le> KPC_MAX_COUNTERS" "length cs \<le> counter_count"
  shows "put_if counter_count cs v = Inr (take counter_count (cs @ [v]))"
  using assms by (simp add: put_if_def put_counter_def)

lemma put_four:
  assumes "counter_count \<le> KPC_MAX_COUNTERS" "length cs \<le> counter_count"
  shows "fbind (put_if counter_count cs a) (\<lambda>cs1.
         fbind (put_if counter_count cs1 b) (\<lambda>cs2.
         fbind (put_if counter_count cs2 c) (\<lambda>cs3.
         fbind (put_if counter_count cs3 d) f))) =
         f (take counter_count (cs @ [a, b, c, d]))"
proof -
  let ?n = counter_count
  have 1: "put_if ?n cs a = Inr (take ?n (cs @ [a]))"
    using assms by (rule put_if_take)
  have 2: "put_if ?n (take ?n (cs @ [a])) b = Inr (take ?n (cs @ [a, b]))"
    using put_if_take [OF assms(1), of "take ?n (cs @ [a])" b]
      take_take_append [of ?n "cs @ [a]" "[b]"] by simp
  have 3: "put_if ?n (take ?n (cs @ [a, b])) c = Inr (take ?n (cs @ [a, b, c]))"
    using put_if_take [OF assms(1), of "take ?n (cs @ [a, b])" c]
      take_take_append [of ?n "cs @ [a, b]" "[c]"] by simp
  have 4: "put_if ?n (take ?n (cs @ [a, b, c])) d = Inr (take ?n (cs @ [a, b, c, d]))"
    using put_if_take [OF assms(1), of "take ?n (cs @ [a, b, c])" d]
      take_take_append [of ?n "cs @ [a, b, c]" "[d]"] by simp
  show ?thesis
    by (simp only: fbind_def 1 2 3 4 sum.case)
qed

lemma read_split_values_take:
  assumes "counter_count \<le> KPC_MAX_COUNTERS" "length cs < counter_count"
  shows "read_split_values K t counter_count cs rest =
     Inr (take counter_count
            (cs @ concat (map args (takeWhile (is_continuation K t) rest))))"
  using assms(2)
proof (induction rest arbitrary: cs)
  case Nil
  then show ?case by simp
next
  case (Cons buf2 rest)
  show ?case
  proof (cases "is_continuation K t buf2")
    case False
    with Cons.prems show ?thesis
      by (auto simp: is_continuation_def thread_id_def is_start_def)
  next
    case True
    let ?cs4 = "take counter_count (cs @ args buf2)"
    from True have c: "(ucast (arg5 buf2) :: u32) = t"
        "debugid buf2 AND KDBG_FUNC_MASK K \<noteq> DBG_FUNC_START K"
      by (simp_all add: is_continuation_def thread_id_def is_start_def)
    from Cons.prems have le: "length cs \<le> counter_count"
      by simp
    have step: "read_split_values K t counter_count cs (buf2 # rest) =
        (if length ?cs4 = counter_count then Inr ?cs4
         else read_split_values K t counter_count ?cs4 rest)"
      by (simp only: read_split_values.simps c simp_thms if_False
          put_four [OF assms(1) le] args_def)
    have tw: "takeWhile (is_continuation K t) (buf2 # rest) =
        buf2 # takeWhile (is_continuation K t) rest"
      using True by simp
    show ?thesis
    proof (cases "length ?cs4 = counter_count")
      case full: True
      then have "counter_count \<le> length (cs @ args buf2)"
        by simp
      then have "take counter_count ((cs @ args buf2) @ ws) = ?cs4" for ws
        by (simp only: take_append) simp
      from this [of "concat (map args (takeWhile (is_continuation K t) rest))"] full
      show ?thesis
        by (simp only: step tw if_True) simp
    next
      case part: False
      then have l: "length (cs @ args buf2) < counter_count"
        by simp
      then have e: "?cs4 = cs @ args buf2"
        by simp
      from Cons.IH [OF l]
      have "read_split_values K t counter_count (cs @ args buf2) rest =
          Inr (take counter_count
            ((cs @ args buf2) @ concat (map args (takeWhile (is_continuation K t) rest))))" .
      with part show ?thesis
        by (simp only: step tw if_False e) simp
    qed
  qed
qed

lemma length_args: "length (args b) = 4"
  by (simp add: args_def)

lemma length_sample_words: "4 \<le> length (sample_words K b rest)"
  by (simp add: sample_words_def args_def)

lemma read_one_counter_log_eq:
  assumes "counter_count \<le> KPC_MAX_COUNTERS"
  shows "read_one_counter_log K counter_count buf rest =
     Inr (if 4 \<le> counter_count \<and> counter_count \<le> length (sample_words K buf rest)
          then Some (take counter_count (sample_words K buf rest)) else None)"
proof -
  have first: "fbind (put_counter [] (arg1 buf)) (\<lambda>cs1.
     fbind (put_counter cs1 (arg2 buf)) (\<lambda>cs2.
     fbind (put_counter cs2 (arg3 buf)) (\<lambda>cs3.
     fbind (put_counter cs3 (arg4 buf)) f))) = f (args buf)" for f :: "u64 list \<Rightarrow> failure + 'b"
    by (simp add: put_counter_def fbind_def KPC_MAX_COUNTERS_def args_def)
  have r: "read_one_counter_log K counter_count buf rest =
      fbind (if 4 < counter_count
             then read_split_values K (thread_id buf) counter_count (args buf) rest
             else Inr (args buf))
        (\<lambda>cs. if length cs \<noteq> counter_count then Inr None else Inr (Some cs))"
    by (simp only: read_one_counter_log_def first length_args thread_id_def)
  show ?thesis
  proof (cases "4 < counter_count")
    case True
    then have "length (args buf) < counter_count"
      by (simp add: length_args)
    from read_split_values_take [OF assms this, of K "thread_id buf" rest]
    have "read_split_values K (thread_id buf) counter_count (args buf) rest =
        Inr (take counter_count (sample_words K buf rest))"
      by (simp only: sample_words_def)
    with True show ?thesis
      by (simp only: r if_True fbind_def sum.case) auto
  next
    case False
    have "take 4 (sample_words K buf rest) = args buf"
      by (simp add: sample_words_def args_def)
    with False length_sample_words [of K buf rest] show ?thesis
      by (simp only: r if_False fbind_def sum.case length_args) auto
  qed
qed

lemma decode_loop_step:
  assumes "counter_count \<le> KPC_MAX_COUNTERS"
  shows "decode_loop K alloc_ok counter_count (buf # rest) T =
       (if is_start K buf \<and> thread_id buf \<noteq> 0 \<and> 4 \<le> counter_count \<and>
           counter_count \<le> length (sample_words K buf rest)
        then fbind (add_to_thread_data alloc_ok counter_count (thread_id buf) (timestamp buf)
                      (take counter_count (sample_words K buf rest)) T)
               (decode_loop K alloc_ok counter_count rest)
        else decode_loop K alloc_ok counter_count rest T)"
  by (simp add: read_one_counter_log_eq [OF assms] is_start_def thread_id_def fbind_def)

text \<open>
  C8: let the words of a record be those of the specification (\<open>sample_words\<close>: the four
  arguments of the record, then the four arguments of each continuation record that
  follows immediately, in order). For a register count of at most \<open>KPC_MAX_COUNTERS\<close>,
  "read one counter log" yields the first \<open>counter_count\<close> of these words when
  there are that many and \<open>counter_count\<close> is at least 4, and nothing otherwise. The loop
  adds this sample to the table when the record has the flag "start" and a nonzero thread
  id; in every other case, also that of a sample that stays short of \<open>counter_count\<close>
  values, it goes on to the next record with the table unchanged.
\<close>

theorem decode_reassembles_samples:
  assumes "counter_count \<le> KPC_MAX_COUNTERS"
  shows "read_one_counter_log K counter_count buf rest =
       Inr (if 4 \<le> counter_count \<and> counter_count \<le> length (sample_words K buf rest)
            then Some (take counter_count (sample_words K buf rest)) else None) \<and>
     decode_loop K alloc_ok counter_count (buf # rest) T =
       (if is_start K buf \<and> thread_id buf \<noteq> 0 \<and> 4 \<le> counter_count \<and>
           counter_count \<le> length (sample_words K buf rest)
        then fbind (add_to_thread_data alloc_ok counter_count (thread_id buf) (timestamp buf)
                      (take counter_count (sample_words K buf rest)) T)
               (decode_loop K alloc_ok counter_count rest)
        else decode_loop K alloc_ok counter_count rest T)"
  using read_one_counter_log_eq [OF assms] decode_loop_step [OF assms] by (rule conjI)

lemmas record_defs = xnu_kdebug_h_def start_record_def more_record_def sample_words_def
  is_continuation_def is_start_def thread_id_def args_def KPC_MAX_COUNTERS_def

theorem decode_reassembles_samples_witness:
  "read_one_counter_log xnu_kdebug_h 5 (start_record 100 7 1 2 3 4) [more_record 101 7 5 0 0 0] =
     Inr (Some [1, 2, 3, 4, 5]) \<and>
   read_one_counter_log xnu_kdebug_h 5 (start_record 100 7 1 2 3 4) [more_record 101 8 5 0 0 0] =
     Inr None \<and>
   decode_loop xnu_kdebug_h (\<lambda>n. True) 5
     [start_record 100 7 1 2 3 4, more_record 101 8 5 0 0 0] empty_table = Inr empty_table"
proof -
  have b: "(5::nat) \<le> KPC_MAX_COUNTERS"
    by (simp add: KPC_MAX_COUNTERS_def)
  have "decode_loop xnu_kdebug_h (\<lambda>n. True) 5
     [start_record 100 7 1 2 3 4, more_record 101 8 5 0 0 0] empty_table =
     decode_loop xnu_kdebug_h (\<lambda>n. True) 5 [more_record 101 8 5 0 0 0] empty_table"
    using decode_reassembles_samples [OF b, of xnu_kdebug_h "start_record 100 7 1 2 3 4"
        "[more_record 101 8 5 0 0 0]" "\<lambda>n. True" empty_table]
    by (simp add: record_defs fbind_def)
  moreover have "decode_loop xnu_kdebug_h (\<lambda>n. True) 5 [more_record 101 8 5 0 0 0] empty_table =
     Inr empty_table"
    using decode_reassembles_samples [OF b, of xnu_kdebug_h "more_record 101 8 5 0 0 0"
        "[]" "\<lambda>n. True" empty_table]
    by (simp add: record_defs fbind_def)
  ultimately show ?thesis
    using decode_reassembles_samples [OF b, of xnu_kdebug_h "start_record 100 7 1 2 3 4"
        "[more_record 101 7 5 0 0 0]" "\<lambda>n. True" empty_table]
      decode_reassembles_samples [OF b, of xnu_kdebug_h "start_record 100 7 1 2 3 4"
        "[more_record 101 8 5 0 0 0]" "\<lambda>n. True" empty_table]
    by (simp add: record_defs fbind_def)
qed

lemma decode_loop_samples:
  assumes "n \<le> KPC_MAX_COUNTERS"
  shows "decode_loop K alloc_ok n bufs T = add_samples alloc_ok n (complete_samples K n bufs) T"
proof (induction bufs arbitrary: T)
  case Nil
  show ?case by simp
next
  case (Cons b rest)
  have f: "decode_loop K alloc_ok n rest = add_samples alloc_ok n (complete_samples K n rest)"
    using Cons.IH by (rule ext)
  show ?case
  proof (cases "is_start K b \<and> thread_id b \<noteq> 0 \<and> 4 \<le> n \<and>
      n \<le> length (sample_words K b rest)")
    case True
    then show ?thesis
      by (simp only: decode_loop_step [OF assms] f complete_samples.simps add_samples.simps
          sample.simps simp_thms if_True)
  next
    case False
    then show ?thesis
      by (simp only: decode_loop_step [OF assms] f complete_samples.simps simp_thms if_False)
  qed
qed

lemma complete_samples_length:
  "s \<in> set (complete_samples K n bufs) \<Longrightarrow> length (sample_counters s) = n"
  by (induction bufs) (auto split: if_splits)

lemma add_samples_snoc:
  "add_samples alloc_ok n (ss @ [s]) T =
     fbind (add_samples alloc_ok n ss T)
       (add_to_thread_data alloc_ok n (sample_tid s) (sample_timestamp s) (sample_counters s))"
proof (induction ss arbitrary: T)
  case Nil
  show ?case
    by (cases "add_to_thread_data alloc_ok n (sample_tid s) (sample_timestamp s)
          (sample_counters s) T") (simp_all add: fbind_def)
next
  case (Cons a ss)
  show ?case
    by (cases "add_to_thread_data alloc_ok n (sample_tid a) (sample_timestamp a)
          (sample_counters a) T") (simp_all add: fbind_def Cons.IH)
qed

lemma find_thread_None: "find_thread ds t = None \<longleftrightarrow> t \<notin> tid ` set ds"
  by (induction ds) auto

lemma find_thread_Some: "find_thread ds t = Some i \<Longrightarrow> i < length ds \<and> tid (ds ! i) = t"
proof (induction ds arbitrary: i)
  case Nil
  then show ?case by simp
next
  case (Cons d ds)
  then show ?case
    by (cases "tid d = t") (auto split: if_splits)
qed

lemma tid_store_sample: "tid (store_sample n ts cs d) = tid d"
  by (simp add: store_sample_def)

lemma padded_eq:
  "length cs \<le> KPC_MAX_COUNTERS \<Longrightarrow> padded cs = cs @ replicate (KPC_MAX_COUNTERS - length cs) 0"
  by (simp add: padded_def array_write_def)

lemma array_write_padded:
  assumes "length cs = length cs'" "length cs \<le> KPC_MAX_COUNTERS"
  shows "array_write (padded cs') cs = padded cs"
  using assms by (simp add: padded_eq) (simp add: array_write_def)

lemma array_write_zeros: "array_write (replicate KPC_MAX_COUNTERS 0) cs = padded cs"
  by (simp add: padded_def)

lemma store_sample_fresh:
  assumes "length cs = n"
  shows "store_sample n ts cs (zeroed_thread_data\<lparr>tid := t\<rparr>) =
     expected_entry t [\<lparr>sample_tid = t, sample_timestamp = ts, sample_counters = cs\<rparr>]"
  using assms
  by (simp add: store_sample_def zeroed_thread_data_def expected_entry_def padded_def)

lemma store_sample_expected:
  assumes "st \<noteq> []" "sample_timestamp (hd st) \<noteq> 0" "length cs = n" "n \<le> KPC_MAX_COUNTERS"
    and "\<forall>s \<in> set st. length (sample_counters s) = n"
  shows "store_sample n ts cs (expected_entry t st) =
     expected_entry t (st @ [\<lparr>sample_tid = t, sample_timestamp = ts, sample_counters = cs\<rparr>])"
proof -
  have l: "length (sample_counters (last st)) = n"
    using assms(1,5) by simp
  have w: "array_write (if 2 \<le> length st then padded (sample_counters (last st))
                        else replicate KPC_MAX_COUNTERS 0) cs = padded cs"
    using assms(3,4) l by (simp add: array_write_padded array_write_zeros)
  have two: "2 \<le> length (st @ [x])" for x :: sample
    using assms(1) by (cases st) simp_all
  show ?thesis
    using assms(1,2,3) w
    by (simp add: store_sample_def expected_entry_def two del: length_append)
qed


lemma add_to_thread_data_inv:
  assumes inv: "table_inv ss (thread_data T)"
    and len: "\<forall>s \<in> set ss. length (sample_counters s) = n" "length cs = n"
      "n \<le> KPC_MAX_COUNTERS"
    and add: "add_to_thread_data alloc_ok n t ts cs T = Inr T'"
  shows "table_inv (ss @ [\<lparr>sample_tid = t, sample_timestamp = ts, sample_counters = cs\<rparr>])
           (thread_data T')"
proof -
  let ?s = "\<lparr>sample_tid = t, sample_timestamp = ts, sample_counters = cs\<rparr>"
  let ?ds = "thread_data T"
  let ?ss = "ss @ [?s]"
  from inv have dist: "distinct (map tid ?ds)"
    and img: "tid ` set ?ds = sample_tid ` set ss"
    and ent: "\<And>d. d \<in> set ?ds \<Longrightarrow> sample_timestamp (hd (samples_of (tid d) ss)) \<noteq> 0 \<Longrightarrow>
        d = expected_entry (tid d) (samples_of (tid d) ss)"
    by (simp_all add: table_inv_def)
  have so_other: "samples_of u ?ss = samples_of u ss" if "u \<noteq> t" for u
    using that by (simp add: samples_of_def)
  have so_t: "samples_of t ?ss = samples_of t ss @ [?s]"
    by (simp add: samples_of_def)
  show ?thesis
  proof (cases "find_thread ?ds t")
    case None
    let ?new = "store_sample n ts cs (zeroed_thread_data\<lparr>tid := t\<rparr>)"
    from None have notin: "t \<notin> tid ` set ?ds"
      by (simp add: find_thread_None)
    from add None have td: "thread_data T' = ?ds @ [?new]"
      by (auto simp: add_to_thread_data_def Let_def split: if_splits)
    from notin img have "samples_of t ss = []"
      by (auto simp: samples_of_def filter_empty_conv)
    with so_t have st: "samples_of t ?ss = [?s]"
      by simp
    have new: "?new = expected_entry t [?s]"
      using len(2) by (rule store_sample_fresh)
    have tn: "tid ?new = t"
      by (simp add: tid_store_sample)
    have 1: "distinct (map tid (?ds @ [?new]))"
      using dist notin tn by auto
    have 2: "tid ` set (?ds @ [?new]) = sample_tid ` set ?ss"
      using img tn by auto
    have 3: "d = expected_entry (tid d) (samples_of (tid d) ?ss)"
      if "d \<in> set (?ds @ [?new])" "sample_timestamp (hd (samples_of (tid d) ?ss)) \<noteq> 0" for d
    proof (cases "d = ?new")
      case True
      with new tn st show ?thesis by simp
    next
      case False
      with that(1) have d: "d \<in> set ?ds" by simp
      with notin have "tid d \<noteq> t" by auto
      with that(2) ent [OF d] so_other show ?thesis by simp
    qed
    from 1 2 3 show ?thesis
      unfolding table_inv_def td by blast
  next
    case (Some i)
    then have i: "i < length ?ds" "tid (?ds ! i) = t"
      by (simp_all add: find_thread_Some)
    let ?upd = "store_sample n ts cs (?ds ! i)"
    from add Some have td: "thread_data T' = ?ds[i := ?upd]"
      by (auto simp: add_to_thread_data_def)
    have tu: "tid ?upd = t"
      using i by (simp add: tid_store_sample)
    have m: "map tid (?ds[i := ?upd]) = map tid ?ds"
      using i tu by (simp add: map_update list_update_same_conv)
    from i have tin: "t \<in> tid ` set ?ds"
      by (metis imageI nth_mem)
    have 1: "distinct (map tid (?ds[i := ?upd]))"
      using dist m by simp
    have "tid ` set (?ds[i := ?upd]) = set (map tid (?ds[i := ?upd]))"
      by simp
    also have "\<dots> = tid ` set ?ds"
      by (simp only: m) simp
    finally have 2: "tid ` set (?ds[i := ?upd]) = sample_tid ` set ?ss"
      using img tin by auto
    from tin img have ne: "samples_of t ss \<noteq> []"
      by (auto simp: samples_of_def filter_empty_conv)
    have 3: "d = expected_entry (tid d) (samples_of (tid d) ?ss)"
      if "d \<in> set (?ds[i := ?upd])" "sample_timestamp (hd (samples_of (tid d) ?ss)) \<noteq> 0" for d
    proof -
      from that(1) obtain j where j: "j < length ?ds" "d = ?ds[i := ?upd] ! j"
        by (auto simp: in_set_conv_nth)
      show ?thesis
      proof (cases "j = i")
        case True
        with j i have d: "d = ?upd" by simp
        with tu that(2) so_t ne have nz: "sample_timestamp (hd (samples_of t ss)) \<noteq> 0"
          by simp
        have "?ds ! i \<in> set ?ds"
          using i by simp
        from ent [OF this] i nz have e: "?ds ! i = expected_entry t (samples_of t ss)"
          by simp
        have "\<forall>s \<in> set (samples_of t ss). length (sample_counters s) = n"
          using len(1) by (simp add: samples_of_def)
        from store_sample_expected [OF ne nz len(2) len(3) this, of ts t] d e
        have "d = expected_entry t (samples_of t ss @ [?s])"
          by simp
        moreover have "tid d = t"
          using d tu by simp
        ultimately show ?thesis
          by (simp only: so_t)
      next
        case False
        with j have d: "d = ?ds ! j" by simp
        from j(1) have "?ds ! j \<in> set ?ds" by (rule nth_mem)
        with d have din: "d \<in> set ?ds" by (simp only:)
        have "tid d \<noteq> t"
        proof
          assume "tid d = t"
          with d i j(1) have "map tid ?ds ! j = map tid ?ds ! i" by simp
          with dist j(1) i(1) have "j = i"
            using nth_eq_iff_index_eq [of "map tid ?ds" j i] by simp
          with False show False ..
        qed
        with that(2) ent [OF din] so_other show ?thesis by simp
      qed
    qed
    from 1 2 3 show ?thesis
      unfolding table_inv_def td by blast
  qed
qed

lemma add_samples_inv:
  assumes "thread_data T0 = []" "n \<le> KPC_MAX_COUNTERS"
  shows "add_samples alloc_ok n ss T0 = Inr T \<Longrightarrow>
     \<forall>s \<in> set ss. length (sample_counters s) = n \<Longrightarrow> table_inv ss (thread_data T)"
proof (induction ss arbitrary: T rule: rev_induct)
  case Nil
  with assms(1) show ?case
    by (simp add: table_inv_def)
next
  case (snoc s ss)
  from snoc.prems(1) obtain T1 where
    1: "add_samples alloc_ok n ss T0 = Inr T1"
    and 2: "add_to_thread_data alloc_ok n (sample_tid s) (sample_timestamp s)
              (sample_counters s) T1 = Inr T"
    by (cases "add_samples alloc_ok n ss T0") (simp_all add: add_samples_snoc fbind_def)
  from snoc.prems(2) have l: "\<forall>s \<in> set ss. length (sample_counters s) = n"
      "length (sample_counters s) = n"
    by simp_all
  from snoc.IH [OF 1 l(1)] have i1: "table_inv ss (thread_data T1)" .
  have eq: "\<lparr>sample_tid = sample_tid s, sample_timestamp = sample_timestamp s,
      sample_counters = sample_counters s\<rparr> = s"
    by (cases s) simp
  from add_to_thread_data_inv [OF i1 l(1) l(2) assms(2) 2] show ?case
    unfolding eq .
qed

lemma distinct_filter_single:
  "distinct (map f xs) \<Longrightarrow> x \<in> set xs \<Longrightarrow> filter (\<lambda>y. f y = f x) xs = [x]"
proof (induction xs)
  case Nil
  then show ?case by simp
next
  case (Cons a xs)
  show ?case
  proof (cases "x = a")
    case True
    from Cons.prems(1) have "f a \<notin> f ` set xs"
      by simp
    then have "\<forall>y \<in> set xs. f y \<noteq> f a"
      by (metis imageI)
    then have "filter (\<lambda>y. f y = f a) xs = []"
      by (simp add: filter_empty_conv)
    with True show ?thesis by simp
  next
    case False
    with Cons.prems have x: "x \<in> set xs" "distinct (map f xs)"
      by simp_all
    from Cons.prems(1) have "f a \<notin> f ` set xs"
      by simp
    with x(1) have "f a \<noteq> f x"
      by (metis imageI)
    with Cons.IH [OF x(2) x(1)] show ?thesis by simp
  qed
qed

text \<open>
  C9, as the code has it: the code takes \<open>timestamp_0 == 0\<close> to mean that the start
  slot of a thread is empty. When the aggregation runs to its end, the register count is
  at most \<open>KPC_MAX_COUNTERS\<close> and the first complete sample of the thread \<open>t\<close> has a
  nonzero timestamp, the table has exactly one entry for \<open>t\<close>: its start snapshot is the
  first complete sample of \<open>t\<close>, its end snapshot is the second one when there are two,
  and the latest one when there are more, the start snapshot staying as it is.
\<close>

theorem aggregate_start_and_end:
  assumes "aggregate K alloc_ok counter_count bufs = Inr T"
    and "unat counter_count \<le> KPC_MAX_COUNTERS"
    and "st = samples_of t (complete_samples K (unat counter_count) bufs)"
    and "st \<noteq> []" and "sample_timestamp (hd st) \<noteq> 0"
  shows "filter (\<lambda>d. tid d = t) (thread_data T) = [expected_entry t st]"
proof -
  let ?n = "unat counter_count"
  let ?ss = "complete_samples K ?n bufs"
  from assms(1) have "decode_loop K alloc_ok ?n bufs
      \<lparr>thread_capacity = 16, thread_data = []\<rparr> = Inr T"
    by (simp add: aggregate_def split: if_splits)
  then have a: "add_samples alloc_ok ?n ?ss \<lparr>thread_capacity = 16, thread_data = []\<rparr> = Inr T"
    by (simp only: decode_loop_samples [OF assms(2)])
  have l: "\<forall>s \<in> set ?ss. length (sample_counters s) = ?n"
    by (simp add: complete_samples_length)
  have e0: "thread_data \<lparr>thread_capacity = 16, thread_data = []\<rparr> = []"
    by simp
  from add_samples_inv [OF e0 assms(2) a l] have inv: "table_inv ?ss (thread_data T)" .
  from assms(3,4) have "t \<in> sample_tid ` set ?ss"
    by (auto simp: samples_of_def filter_empty_conv)
  moreover from inv have "tid ` set (thread_data T) = sample_tid ` set ?ss"
    by (simp add: table_inv_def)
  ultimately have "t \<in> tid ` set (thread_data T)"
    by simp
  then obtain d where d: "d \<in> set (thread_data T)" "tid d = t"
    by (auto simp: image_iff)
  from inv d assms(5) have e: "d = expected_entry t st"
    unfolding table_inv_def assms(3) by blast
  from inv have "distinct (map tid (thread_data T))"
    by (simp add: table_inv_def)
  from distinct_filter_single [OF this d(1)] d(2) e show ?thesis
    by simp
qed


lemmas decode_defs = record_defs aggregate_def read_one_counter_log_def put_counter_def fbind_def
  add_to_thread_data_def store_sample_def zeroed_thread_data_def array_write_def

lemma three_samples_aggregate:
  "aggregate xnu_kdebug_h (\<lambda>n. True) 4 three_samples =
     Inr \<lparr>thread_capacity = 16, thread_data =
       [\<lparr>tid = 7, timestamp_0 = 100, timestamp_1 = 300,
         thread_counters_0 = [1, 2, 3, 4] @ replicate 28 0,
         thread_counters_1 = [9, 10, 11, 12] @ replicate 28 0\<rparr>]\<rparr>"
  by (simp add: three_samples_def decode_defs)

lemma three_samples_complete:
  "samples_of 7 (complete_samples xnu_kdebug_h 4 three_samples) =
     [\<lparr>sample_tid = 7, sample_timestamp = 100, sample_counters = [1, 2, 3, 4]\<rparr>,
      \<lparr>sample_tid = 7, sample_timestamp = 200, sample_counters = [5, 6, 7, 8]\<rparr>,
      \<lparr>sample_tid = 7, sample_timestamp = 300, sample_counters = [9, 10, 11, 12]\<rparr>]"
  by (simp add: three_samples_def samples_of_def record_defs)

theorem aggregate_start_and_end_witness:
  "\<exists>T. aggregate xnu_kdebug_h (\<lambda>n. True) 4 three_samples = Inr T \<and>
       filter (\<lambda>d. tid d = 7) (thread_data T) =
         [\<lparr>tid = 7, timestamp_0 = 100, timestamp_1 = 300,
           thread_counters_0 = [1, 2, 3, 4] @ replicate 28 0,
           thread_counters_1 = [9, 10, 11, 12] @ replicate 28 0\<rparr>]"
proof -
  let ?st = "samples_of 7 (complete_samples xnu_kdebug_h (unat (4 :: u32)) three_samples)"
  have b: "unat (4 :: u32) \<le> KPC_MAX_COUNTERS"
    by (simp add: KPC_MAX_COUNTERS_def)
  have ne: "?st \<noteq> []" and nz: "sample_timestamp (hd ?st) \<noteq> 0"
    by (simp_all add: three_samples_complete)
  have "expected_entry 7 ?st =
      \<lparr>tid = 7, timestamp_0 = 100, timestamp_1 = 300,
        thread_counters_0 = [1, 2, 3, 4] @ replicate 28 0,
        thread_counters_1 = [9, 10, 11, 12] @ replicate 28 0\<rparr>"
    by (simp add: three_samples_complete expected_entry_def padded_def array_write_def
        KPC_MAX_COUNTERS_def)
  with aggregate_start_and_end [OF three_samples_aggregate b refl ne nz]
  show ?thesis
    by (simp only: three_samples_aggregate) blast
qed

text \<open>
  The claim C9 as written fails for a first sample with the timestamp 0: both records
  give a complete sample of the thread 7, yet the second sample ends up in the start slot
  and the end slot stays empty.
\<close>

theorem aggregate_zero_timestamp_counterexample:
  "read_one_counter_log xnu_kdebug_h 4 (start_record 0 7 1 2 3 4) [start_record 200 7 5 6 7 8] =
     Inr (Some [1, 2, 3, 4]) \<and>
   read_one_counter_log xnu_kdebug_h 4 (start_record 200 7 5 6 7 8) [] =
     Inr (Some [5, 6, 7, 8]) \<and>
   aggregate xnu_kdebug_h (\<lambda>n. True) 4 zero_timestamp_samples =
     Inr \<lparr>thread_capacity = 16, thread_data =
       [\<lparr>tid = 7, timestamp_0 = 200, timestamp_1 = 0,
         thread_counters_0 = [5, 6, 7, 8] @ replicate 28 0,
         thread_counters_1 = replicate 32 0\<rparr>]\<rparr>"
  by (simp add: zero_timestamp_samples_def decode_defs)

end
